(* ===== verification/Prelude.thy ===== *)
theory Prelude
  imports Main "HOL-Library.AList" "HOL-Library.Code_Target_Nat"
begin

text \<open>
  Shared vocabulary of the model of \<open>src/web/webpack.config.js\<close>: the JavaScript
  string primitives the configuration calls (\<open>split\<close>, \<open>join\<close>, \<open>replace\<close> with a
  global one-character pattern, anchored suffix tests), JavaScript property bags
  (plain objects such as \<open>compilation.assets\<close> and \<open>entryPointsMap\<close>) as
  association lists in insertion order, the key order of a \<open>for ... in\<close> loop, and
  the generic lemmas on lists and association lists the component theories share.
  Strings are \<open>char list\<close>; Isabelle characters are 8-bit, so a file name is
  modelled as its byte string.
\<close>

named_theorems js_simps \<open>evaluation rules for the JavaScript primitives of the model\<close>

text \<open>
  A plain JavaScript object used as a dictionary: its own enumerable properties in
  insertion order. Assignment \<open>o[k] = v\<close> keeps the position of an existing key and
  appends a new one, which is exactly \<^const>\<open>AList.update\<close>.
\<close>

type_synonym 'v jsobject = "(string \<times> 'v) list"

abbreviation obj_keys :: "'v jsobject \<Rightarrow> string list" where
  "obj_keys ob \<equiv> map fst ob"

subsection \<open>Strings\<close>

text \<open>\<open>s.split(c)\<close> for a one-character separator: never empty, one piece more than
  there are separators.\<close>

fun split_on :: "char \<Rightarrow> string \<Rightarrow> string list" where
  "split_on c [] = [[]]"
| "split_on c (x # xs) =
     (if x = c then [] # split_on c xs
      else (case split_on c xs of w # ws \<Rightarrow> (x # w) # ws | [] \<Rightarrow> [[x]]))"

text \<open>\<open>parts.join(c)\<close>.\<close>

fun join_on :: "char \<Rightarrow> string list \<Rightarrow> string" where
  "join_on c [] = []"
| "join_on c [w] = w"
| "join_on c (w # ws) = w @ c # join_on c ws"

text \<open>\<open>parts[parts.length - 1]\<close> after splitting a path at \<open>'/'\<close>.\<close>

definition path_basename :: "string \<Rightarrow> string" where
  "path_basename f = last (split_on (CHR ''/'') f)"

text \<open>\<open>s.replace(/c/g, d)\<close> for a one-character pattern.\<close>

definition replace_char :: "char \<Rightarrow> char \<Rightarrow> string \<Rightarrow> string" where
  "replace_char c d s = map (\<lambda>x. if x = c then d else x) s"

text \<open>An anchored suffix test, the regular expression \<open>/suf$/\<close> without line
  terminators in \<open>suf\<close>.\<close>

definition ends_with :: "string \<Rightarrow> string \<Rightarrow> bool" where
  "ends_with s suf \<longleftrightarrow> length suf \<le> length s \<and> drop (length s - length suf) s = suf"

text \<open>\<open>s.startsWith(p)\<close>.\<close>

definition starts_with :: "string \<Rightarrow> string \<Rightarrow> bool" where
  "starts_with s p \<longleftrightarrow> take (length p) s = p"

subsection \<open>The key order of \<open>for ... in\<close>\<close>

text \<open>
  A \<open>for (k in o)\<close> loop visits the keys that are array indices first, in ascending
  numeric order, then the other string keys in insertion order. An array index is
  the canonical decimal form of a number below \<open>2^32 - 1\<close>.
\<close>

definition digit_value :: "char \<Rightarrow> nat" where
  "digit_value c = of_char c - 48"

definition is_digit :: "char \<Rightarrow> bool" where
  "is_digit c \<longleftrightarrow> 48 \<le> (of_char c :: nat) \<and> (of_char c :: nat) \<le> 57"

definition decimal_value :: "string \<Rightarrow> nat" where
  "decimal_value s = foldl (\<lambda>n c. 10 * n + digit_value c) 0 s"

definition is_array_index :: "string \<Rightarrow> bool" where
  "is_array_index s \<longleftrightarrow>
     s \<noteq> [] \<and> list_all is_digit s \<and> (s = ''0'' \<or> hd s \<noteq> CHR ''0'')
     \<and> decimal_value s < 4294967295"

definition for_in_keys :: "'v jsobject \<Rightarrow> string list" where
  "for_in_keys ob =
     sort_key decimal_value (filter is_array_index (obj_keys ob))
     @ filter (\<lambda>k. \<not> is_array_index k) (obj_keys ob)"

subsection \<open>Lemmas on the string primitives\<close>

lemma split_on_nonempty [simp]: "split_on c s \<noteq> []"
  by (induction s) (auto split: list.split)

lemma split_on_no_sep: "c \<notin> set s \<Longrightarrow> split_on c s = [s]"
  by (induction s) auto

lemma split_on_pieces: "w \<in> set (split_on c s) \<Longrightarrow> c \<notin> set w"
proof (induction s arbitrary: w)
  case Nil
  then show ?case by simp
next
  case (Cons x xs)
  then show ?case
    by (cases "split_on c xs") (auto split: if_splits)
qed

lemma split_on_append_sep:
  "split_on c (xs @ c # ys) = split_on c xs @ split_on c ys" (is "?l xs = ?r xs")
proof (induction xs)
  case Nil
  then show ?case by simp
next
  case (Cons x xs)
  then show ?case
    by (cases "split_on c xs") (auto split: list.split)
qed

lemma last_split_on_append:
  "c \<notin> set ys \<Longrightarrow> last (split_on c (xs @ c # ys)) = ys"
  by (simp add: split_on_append_sep split_on_no_sep)

lemma path_basename_flat [simp]: "CHR ''/'' \<notin> set f \<Longrightarrow> path_basename f = f"
  by (simp add: path_basename_def split_on_no_sep)

lemma last_split_on_suffix: "\<exists>d. s = d @ last (split_on c s)"
proof (cases "c \<in> set s")
  case True
  then obtain xs ys where "s = xs @ c # ys" and "c \<notin> set ys"
    by (metis split_list_last)
  then show ?thesis by (auto simp: last_split_on_append)
next
  case False
  then show ?thesis by (simp add: split_on_no_sep)
qed

lemma path_basename_no_slash: "CHR ''/'' \<notin> set (path_basename f)"
  unfolding path_basename_def
  by (rule split_on_pieces [of _ _ f]) simp

lemma path_basename_dir:
  "CHR ''/'' \<notin> set b \<Longrightarrow> path_basename (d @ CHR ''/'' # b) = b"
  by (simp add: path_basename_def last_split_on_append)

lemma path_basename_suffix: "\<exists>d. f = d @ path_basename f"
  unfolding path_basename_def by (rule last_split_on_suffix)

lemma set_path_basename: "set (path_basename f) \<subseteq> set f"
  using path_basename_suffix [of f] by (metis Un_upper2 set_append)

lemma replace_char_removes: "c \<noteq> d \<Longrightarrow> c \<notin> set (replace_char c d s)"
  by (auto simp: replace_char_def)

lemma ends_with_iff: "ends_with s suf \<longleftrightarrow> (\<exists>x. s = x @ suf)"
proof
  assume "ends_with s suf"
  then have "s = take (length s - length suf) s @ suf"
    by (metis append_take_drop_id ends_with_def)
  then show "\<exists>x. s = x @ suf" ..
next
  assume "\<exists>x. s = x @ suf"
  then show "ends_with s suf" by (auto simp: ends_with_def)
qed

lemma ends_with_append [simp, js_simps]: "ends_with (x @ suf) suf"
  by (auto simp: ends_with_iff)

lemma starts_with_iff: "starts_with s p \<longleftrightarrow> (\<exists>x. s = p @ x)"
  by (metis append_eq_conv_conj append_take_drop_id starts_with_def)

subsection \<open>Lemmas on association lists\<close>

text \<open>The keys after a sequence of assignments: the old keys in place, followed by
  the keys that were new.\<close>

lemma fold_update_keys:
  "\<exists>ys. obj_keys (fold (\<lambda>(k, v). AList.update k v) kvs al) = obj_keys al @ ys
      \<and> set ys = set (map fst kvs) - set (obj_keys al)"
proof (induction kvs arbitrary: al)
  case Nil
  then show ?case by simp
next
  case (Cons kv kvs)
  obtain k v where kv: "kv = (k, v)" by fastforce
  obtain ys where ys: "obj_keys (fold (\<lambda>(k, v). AList.update k v) kvs (AList.update k v al))
      = obj_keys (AList.update k v al) @ ys"
    and set_ys: "set ys = set (map fst kvs) - set (obj_keys (AList.update k v al))"
    using Cons.IH by blast
  have step: "fold (\<lambda>(k, v). AList.update k v) (kv # kvs) al
      = fold (\<lambda>(k, v). AList.update k v) kvs (AList.update k v al)"
    by (simp add: kv)
  show ?case
  proof (cases "k \<in> set (obj_keys al)")
    case True
    then have same: "obj_keys (AList.update k v al) = obj_keys al"
      by (simp add: update_keys)
    have "set ys = set (map fst (kv # kvs)) - set (obj_keys al)"
      using set_ys same True kv by auto
    with ys same step show ?thesis by metis
  next
    case False
    then have app: "obj_keys (AList.update k v al) = obj_keys al @ [k]"
      by (simp add: update_keys)
    have "set (k # ys) = set (map fst (kv # kvs)) - set (obj_keys al)"
      using set_ys app False kv by auto
    moreover have "obj_keys (fold (\<lambda>(k, v). AList.update k v) (kv # kvs) al)
        = obj_keys al @ k # ys"
      using ys app step by simp
    ultimately show ?thesis by blast
  qed
qed

lemma fold_update_keys_same:
  "set (map fst kvs) \<subseteq> set (obj_keys al) \<Longrightarrow>
     obj_keys (fold (\<lambda>(k, v). AList.update k v) kvs al) = obj_keys al"
proof (induction kvs arbitrary: al)
  case Nil
  then show ?case by simp
next
  case (Cons kv kvs)
  obtain k v where kv: "kv = (k, v)" by fastforce
  with Cons.prems have "k \<in> set (obj_keys al)" by auto
  then have same: "obj_keys (AList.update k v al) = obj_keys al"
    by (simp add: update_keys)
  with Cons.prems have "set (map fst kvs) \<subseteq> set (obj_keys (AList.update k v al))"
    by simp
  then have "obj_keys (fold (\<lambda>(k, v). AList.update k v) kvs (AList.update k v al))
      = obj_keys (AList.update k v al)"
    by (rule Cons.IH)
  with same kv show ?case by simp
qed

lemma set_fold_update_keys:
  "set (obj_keys (fold (\<lambda>(k, v). AList.update k v) kvs al)) = set (obj_keys al) \<union> set (map fst kvs)"
proof -
  obtain ys where "obj_keys (fold (\<lambda>(k, v). AList.update k v) kvs al) = obj_keys al @ ys"
    and "set ys = set (map fst kvs) - set (obj_keys al)"
    using fold_update_keys by blast
  then have "set (obj_keys (fold (\<lambda>(k, v). AList.update k v) kvs al))
      = set (obj_keys al) \<union> (set (map fst kvs) - set (obj_keys al))"
    by (simp only: set_append)
  then show ?thesis by blast
qed

text \<open>The values after a sequence of assignments: the last assignment to a key wins.\<close>

lemma map_of_fold_update:
  "map_of (fold (\<lambda>(k, v). AList.update k v) kvs al) = map_of al ++ map_of (rev kvs)"
proof (induction kvs arbitrary: al)
  case Nil
  then show ?case by simp
next
  case (Cons kv kvs)
  obtain k v where kv: "kv = (k, v)" by fastforce
  show ?case
    using Cons.IH [of "AList.update k v al"]
    by (auto simp: kv update_conv' map_add_def fun_eq_iff split: option.split)
qed

text \<open>An association list without duplicate keys is determined by its key order and
  its lookup.\<close>

lemma alist_rebuild:
  "distinct (obj_keys a) \<Longrightarrow> map (\<lambda>(k, _). (k, the (map_of a k))) a = a"
proof (induction a)
  case Nil
  then show ?case by simp
next
  case (Cons p a)
  obtain k v where p: "p = (k, v)" by fastforce
  from Cons.prems p have k: "k \<notin> set (obj_keys a)" and d: "distinct (obj_keys a)"
    by auto
  have "map (\<lambda>(k', _). (k', the (map_of ((k, v) # a) k'))) a
      = map (\<lambda>(k', _). (k', the (map_of a k'))) a"
  proof (rule map_cong)
    fix q assume "q \<in> set a"
    with k have "fst q \<noteq> k" by force
    then show "(\<lambda>(k', _). (k', the (map_of ((k, v) # a) k'))) q
        = (\<lambda>(k', _). (k', the (map_of a k'))) q"
      by (cases q) simp
  qed simp
  also have "\<dots> = a" using d by (rule Cons.IH)
  finally show ?case by (simp add: p)
qed

lemma map_by_key: "map (\<lambda>(k, _). f k) a = map f (obj_keys a)"
  by (induction a) auto

lemma alist_eqI:
  assumes "obj_keys a = obj_keys b" and "map_of a = map_of b"
    and "distinct (obj_keys a)"
  shows "a = b"
proof -
  have "a = map (\<lambda>(k, _). (k, the (map_of a k))) a"
    using assms(3) by (simp add: alist_rebuild)
  also have "\<dots> = map (\<lambda>k. (k, the (map_of b k))) (obj_keys b)"
    using assms(1,2) by (simp only: map_by_key)
  also have "\<dots> = map (\<lambda>(k, _). (k, the (map_of b k))) b"
    by (simp only: map_by_key)
  also have "\<dots> = b"
    using assms(1,3) by (simp add: alist_rebuild)
  finally show ?thesis .
qed

lemma distinct_fold_update:
  "distinct (obj_keys al) \<Longrightarrow> distinct (obj_keys (fold (\<lambda>(k, v). AList.update k v) kvs al))"
  by (induction kvs arbitrary: al) (auto simp: distinct_update)

text \<open>Assignments to keys not yet present append in order.\<close>

lemma update_fresh: "k \<notin> set (obj_keys al) \<Longrightarrow> AList.update k v al = al @ [(k, v)]"
  by (induction al) auto

lemma fold_update_fresh:
  "distinct (map fst kvs) \<Longrightarrow> set (map fst kvs) \<inter> set (obj_keys al) = {} \<Longrightarrow>
     fold (\<lambda>(k, v). AList.update k v) kvs al = al @ kvs"
proof (induction kvs arbitrary: al)
  case Nil
  then show ?case by simp
next
  case (Cons kv kvs)
  obtain k v where kv: "kv = (k, v)" by fastforce
  with Cons.prems have "k \<notin> set (obj_keys al)" by auto
  then have app: "AList.update k v al = al @ [(k, v)]" by (rule update_fresh)
  have "fold (\<lambda>(k, v). AList.update k v) kvs (al @ [(k, v)]) = (al @ [(k, v)]) @ kvs"
    using Cons.prems kv by (intro Cons.IH) auto
  with app kv show ?case by simp
qed

text \<open>Assignments into an empty object: each key once, in the order of its first
  assignment, holding the value of its last.\<close>

lemma fold_update_keys_first:
  "obj_keys (fold (\<lambda>(k, v). AList.update k v) kvs []) = rev (remdups (rev (map fst kvs)))"
proof (induction kvs rule: rev_induct)
  case Nil
  then show ?case by simp
next
  case (snoc kv kvs)
  obtain k v where kv: "kv = (k, v)" by fastforce
  have "set (obj_keys (fold (\<lambda>(k, v). AList.update k v) kvs [])) = set (map fst kvs)"
    using set_fold_update_keys [of kvs "[]"] by simp
  with snoc kv show ?case by (simp add: update_keys)
qed

lemma map_of_rev_map_last:
  "map_of (rev (map (\<lambda>x. (f x, g x)) xs)) k =
     (if k \<in> f ` set xs then Some (g (last (filter (\<lambda>x. f x = k) xs))) else None)"
  by (induction xs rule: rev_induct) auto

lemma map_of_rev_distinct: "distinct (map fst xs) \<Longrightarrow> map_of (rev xs) = map_of xs"
proof
  fix k assume d: "distinct (map fst xs)"
  show "map_of (rev xs) k = map_of xs k"
  proof (cases "map_of xs k")
    case None
    then have "map_of (rev xs) k = None" by (simp add: map_of_eq_None_iff)
    with None show ?thesis by simp
  next
    case (Some v)
    then have "(k, v) \<in> set (rev xs)" by (simp add: map_of_SomeD)
    moreover have "distinct (map fst (rev xs))" using d by (simp add: rev_map [symmetric])
    ultimately show ?thesis using Some by simp
  qed
qed

text \<open>A prefix ended by the first occurrence of a separator is determined by the
  string: the common step of every "split at the first separator" argument.\<close>

lemma sep_prefix_inj:
  assumes a: "\<forall>c \<in> set a. P c" and b: "\<forall>c \<in> set b. P c" and x: "\<not> P x"
    and eq: "a @ x # r1 = b @ x # r2"
  shows "a = b \<and> r1 = r2"
proof -
  have t: "takeWhile P (u @ x # r) = u" if "\<forall>c \<in> set u. P c" for u r
    using that x by (simp add: takeWhile_append2)
  have "a = b" using t [OF a, of r1] t [OF b, of r2] eq by simp
  with eq show ?thesis by simp
qed

text \<open>The first element of a list with a property, when only one has it.\<close>

lemma find_SomeD: "find P xs = Some x \<Longrightarrow> P x \<and> x \<in> set xs"
  by (induction xs) (auto split: if_splits)

lemma find_unique_cong:
  assumes u: "\<forall>x \<in> set xs. \<forall>y \<in> set xs. P x \<longrightarrow> P y \<longrightarrow> x = y" and s: "set ys = set xs"
  shows "find P ys = find P xs"
proof (cases "\<exists>x \<in> set xs. P x")
  case False
  then have "find P xs = None" and "find P ys = None" using s by (auto simp: find_None_iff)
  then show ?thesis by simp
next
  case True
  then obtain x where x: "x \<in> set xs" "P x" by blast
  have "find P zs = Some x" if "set zs = set xs" for zs
  proof -
    from x that have "find P zs \<noteq> None" by (auto simp: find_None_iff)
    then obtain y where y: "find P zs = Some y" by blast
    then have "y \<in> set xs" and "P y" using that by (auto simp: find_Some_iff)
    with u x y show ?thesis by metis
  qed
  from this [OF s] this [OF refl] show ?thesis by simp
qed

lemma find_unique_Some:
  assumes "x \<in> set xs" and "P x" and u: "\<forall>y \<in> set xs. P y \<longrightarrow> y = x"
  shows "find P xs = Some x"
proof -
  have "find P xs \<noteq> None" using assms(1,2) by (auto simp: find_None_iff)
  then obtain y where y: "find P xs = Some y" by blast
  then have "P y \<and> y \<in> set xs" by (rule find_SomeD)
  with u y show ?thesis by simp
qed

lemma not_isl_Inr: "\<not> isl x \<Longrightarrow> x = Inr (projr x)"
  by (cases x) auto

text \<open>Decimal values: the leading digit weighs \<open>10^(length - 1)\<close>, so an array index
  has at most ten digits.\<close>

lemma decimal_value_foldl:
  "foldl (\<lambda>n c. 10 * n + digit_value c) a s = a * 10 ^ length s + decimal_value s"
proof (induction s arbitrary: a)
  case Nil
  then show ?case by (simp add: decimal_value_def)
next
  case (Cons c s)
  have "foldl (\<lambda>n c. 10 * n + digit_value c) a (c # s)
      = (10 * a + digit_value c) * 10 ^ length s + decimal_value s"
    by (simp add: Cons.IH)
  also have "\<dots> = a * 10 ^ length (c # s) + (digit_value c * 10 ^ length s + decimal_value s)"
    by (simp add: algebra_simps)
  also have "digit_value c * 10 ^ length s + decimal_value s = decimal_value (c # s)"
    using Cons.IH [of "digit_value c"] by (simp add: decimal_value_def)
  finally show ?case .
qed

lemma decimal_value_Cons: "decimal_value (c # s) = digit_value c * 10 ^ length s + decimal_value s"
  using decimal_value_foldl [of "digit_value c" s] by (simp add: decimal_value_def)

lemma array_index_length:
  assumes "is_array_index k"
  shows "length k \<le> 10"
proof (rule ccontr)
  assume long: "\<not> length k \<le> 10"
  from assms obtain c s where k: "k = c # s" by (cases k) (auto simp: is_array_index_def)
  with assms long have c: "is_digit c" "c \<noteq> CHR ''0''" and ls: "10 \<le> length s"
    by (auto simp: is_array_index_def)
  have "(of_char c :: nat) \<noteq> 48"
  proof
    assume "(of_char c :: nat) = 48"
    then have "char_of (of_char c :: nat) = (char_of (48::nat) :: char)" by simp
    moreover have "(char_of (48::nat) :: char) = CHR ''0''" by code_simp
    ultimately show False using c(2) by simp
  qed
  with c(1) have "1 \<le> digit_value c"
    by (auto simp: is_digit_def digit_value_def)
  then have "(10::nat) ^ 10 \<le> digit_value c * 10 ^ length s"
    using ls by (metis mult_le_mono nat_mult_1 power_increasing_iff zero_less_numeral one_less_numeral_iff
        semiring_norm(76))
  then have "(10::nat) ^ 10 \<le> decimal_value k" by (simp add: k decimal_value_Cons)
  with assms show False by (simp add: is_array_index_def)
qed

end
