(* ===== verification/Shim.thy ===== *)
theory Shim
  imports Prelude
begin

text \<open>
  The emit-phase plugin \<open>RedirectPlayFrameworkUsingDummyMd5Files\<close> of
  \<open>src/web/webpack.config.js\<close> (lines 61--90). At webpack's \<open>emit\<close> hook it walks the
  keys of \<open>compilation.assets\<close> with \<open>for ... in\<close>, takes the last \<open>'/'\<close>-separated
  segment of each file name, matches it against \<open>/^([a-f0-9]+)-(.*\.js)$/\<close>, collects
  one record \<open>{filename: m[2] + '.md5', contents: m[1]}\<close> per match, and then assigns
  each record into \<open>compilation.assets\<close> as a raw source. The model keeps this shape:
  \<open>fake_md5_loop\<close> is the first loop with its accumulator,
  \<open>install_fake_md5_assets\<close> the \<open>forEach\<close>, \<open>redirect_emit\<close> the hook.
  The regular expression is given twice: \<open>hashed_js_captures\<close> says which
  capture groups a match has, \<open>exec_hashed_js\<close> computes them by the greedy scan.
\<close>

subsection \<open>The file-name pattern\<close>

text \<open>The character class \<open>[a-f0-9]\<close>, by character code.\<close>

definition is_hex_char :: "char \<Rightarrow> bool" where
  "is_hex_char c \<longleftrightarrow>
     (let n = (of_char c :: nat) in (97 \<le> n \<and> n \<le> 102) \<or> (48 \<le> n \<and> n \<le> 57))"

text \<open>The characters \<open>.\<close> does not match (without the \<open>s\<close> flag): line feed and
  carriage return; the two Unicode line separators are not 8-bit characters.\<close>

definition is_line_terminator :: "char \<Rightarrow> bool" where
  "is_line_terminator c \<longleftrightarrow> c = CHR 0x0A \<or> c = CHR 0x0D"

text \<open>\<open>s\<close> matches \<open>/^([a-f0-9]+)-(.*\.js)$/\<close> with groups \<open>h\<close> and \<open>r\<close>.\<close>

definition hashed_js_captures :: "string \<Rightarrow> string \<Rightarrow> string \<Rightarrow> bool" where
  "hashed_js_captures s h r \<longleftrightarrow>
     s = h @ CHR ''-'' # r \<and> h \<noteq> [] \<and> list_all is_hex_char h
     \<and> list_all (\<lambda>c. \<not> is_line_terminator c) r \<and> ends_with r ''.js''"

text \<open>\<open>/^([a-f0-9]+)-(.*\.js)$/.exec(s)\<close>: \<open>Some (m[1], m[2])\<close> or \<open>None\<close> for
  \<open>null\<close>. The greedy \<open>[a-f0-9]+\<close> takes the longest run of hex digits.\<close>

definition exec_hashed_js :: "string \<Rightarrow> (string \<times> string) option" where
  "exec_hashed_js s =
     (let h = takeWhile is_hex_char s in
      case dropWhile is_hex_char s of
        c # r \<Rightarrow>
          (if h \<noteq> [] \<and> c = CHR ''-'' \<and> list_all (\<lambda>c. \<not> is_line_terminator c) r
              \<and> ends_with r ''.js''
           then Some (h, r) else None)
      | [] \<Rightarrow> None)"

subsection \<open>The plugin\<close>

text \<open>A webpack source object; the plugin's own assets are
  \<open>{source: () => contents, size: () => contents.length}\<close>.\<close>

datatype source = RawSource (source_text: string)

definition source_size :: "source \<Rightarrow> nat" where
  "source_size s = length (source_text s)"

text \<open>The records pushed onto \<open>fakeMd5Assets\<close>.\<close>

record fake_md5_asset =
  fake_filename :: string
  fake_contents :: string

text \<open>Lines 67--78, the body of the loop for one key of \<open>compilation.assets\<close>:
  the record it pushes, if the base name matches. (The \<open>dirname\<close> computed on
  line 71 is never used.)\<close>

definition fake_md5_of :: "string \<Rightarrow> fake_md5_asset option" where
  "fake_md5_of filename =
     (let basename = path_basename filename in
      case exec_hashed_js basename of
        Some (hashThatIsntReallyMd5, basenameWithoutHash) \<Rightarrow>
          Some \<lparr>fake_filename = basenameWithoutHash @ ''.md5'',
                fake_contents = hashThatIsntReallyMd5\<rparr>
      | None \<Rightarrow> None)"

text \<open>Lines 64--79: the \<open>for (const filename in compilation.assets)\<close> loop with the
  accumulator \<open>fakeMd5Assets\<close>, over the keys in the order \<open>for ... in\<close> visits them.\<close>

fun fake_md5_loop :: "fake_md5_asset list \<Rightarrow> string list \<Rightarrow> fake_md5_asset list" where
  "fake_md5_loop acc [] = acc"
| "fake_md5_loop acc (filename # fs) =
     (case fake_md5_of filename of
        Some a \<Rightarrow> fake_md5_loop (acc @ [a]) fs
      | None \<Rightarrow> fake_md5_loop acc fs)"

text \<open>Lines 81--86: \<open>compilation.assets[newAsset.filename] = {...}\<close> for each record.\<close>

definition install_fake_md5_assets ::
  "fake_md5_asset list \<Rightarrow> source jsobject \<Rightarrow> source jsobject" where
  "install_fake_md5_assets fakes assets =
     fold (\<lambda>a obj. AList.update (fake_filename a) (RawSource (fake_contents a)) obj) fakes assets"

text \<open>Lines 62--90: the \<open>emit\<close> hook; \<open>callback()\<close> hands the updated assets on.\<close>

definition redirect_emit :: "source jsobject \<Rightarrow> source jsobject" where
  "redirect_emit assets =
     install_fake_md5_assets (fake_md5_loop [] (for_in_keys assets)) assets"

text \<open>A well-formed record of \<open>fakeMd5Assets\<close>: a flat name \<open><name>.js.md5\<close> and a
  nonempty lowercase hex string as contents.\<close>

definition fake_md5_asset_wf :: "fake_md5_asset \<Rightarrow> bool" where
  "fake_md5_asset_wf a \<longleftrightarrow>
     ends_with (fake_filename a) ''.js.md5'' \<and> CHR ''/'' \<notin> set (fake_filename a)
     \<and> fake_contents a \<noteq> [] \<and> list_all is_hex_char (fake_contents a)"

subsection \<open>Lemmas on the pattern\<close>

lemma dash_not_hex [simp]: "\<not> is_hex_char (CHR ''-'')"
  by (simp add: is_hex_char_def)

lemma dash_not_digit [simp]: "\<not> is_digit (CHR ''-'')"
  by (simp add: is_digit_def)

lemma exec_hashed_js_iff:
  "exec_hashed_js s = Some (h, r) \<longleftrightarrow> hashed_js_captures s h r"
proof
  assume ex: "exec_hashed_js s = Some (h, r)"
  then obtain c where d: "dropWhile is_hex_char s = c # r"
    and h: "h = takeWhile is_hex_char s"
    and g: "h \<noteq> [] \<and> c = CHR ''-'' \<and> list_all (\<lambda>c. \<not> is_line_terminator c) r
            \<and> ends_with r ''.js''"
    by (auto simp: exec_hashed_js_def Let_def split: list.splits if_splits)
  from d h have "s = h @ c # r" by (metis takeWhile_dropWhile_id)
  moreover from h have "list_all is_hex_char h"
    by (auto simp: list_all_iff dest: set_takeWhileD)
  ultimately show "hashed_js_captures s h r"
    using g by (simp add: hashed_js_captures_def)
next
  assume "hashed_js_captures s h r"
  then have s: "s = h @ CHR ''-'' # r" and hex: "\<forall>x \<in> set h. is_hex_char x"
    and g: "h \<noteq> [] \<and> list_all (\<lambda>c. \<not> is_line_terminator c) r \<and> ends_with r ''.js''"
    by (auto simp: hashed_js_captures_def list_all_iff)
  from s hex have "takeWhile is_hex_char s = h" and "dropWhile is_hex_char s = CHR ''-'' # r"
    by simp_all
  with g show "exec_hashed_js s = Some (h, r)"
    by (simp add: exec_hashed_js_def)
qed

lemma hashed_js_captures_unique:
  "hashed_js_captures s h r \<Longrightarrow> hashed_js_captures s h' r' \<Longrightarrow> h' = h \<and> r' = r"
  by (metis exec_hashed_js_iff option.inject prod.inject)

text \<open>Claim C23 (round trip): a name built as \<open>[chunkhash]-<name>.js\<close> from a
  non-empty lower-case hex hash and a name without line terminators is matched by the
  plugin's pattern, and the capture groups give back the hash and \<open><name>.js\<close>.\<close>

theorem exec_hashed_js_roundtrip:
  assumes "h \<noteq> []" and "list_all is_hex_char h"
    and "list_all (\<lambda>c. \<not> is_line_terminator c) n"
  shows "exec_hashed_js (h @ CHR ''-'' # n @ ''.js'') = Some (h, n @ ''.js'')"
  using assms
  by (simp add: exec_hashed_js_iff hashed_js_captures_def is_line_terminator_def)

lemma exec_hashed_js_SomeD:
  assumes "exec_hashed_js s = Some (h, r)"
  shows "s = h @ CHR ''-'' # r" and "ends_with r ''.js''"
  using assms by (simp_all add: exec_hashed_js_iff hashed_js_captures_def)

lemma exec_hashed_js_dash: "exec_hashed_js s = Some (h, r) \<Longrightarrow> CHR ''-'' \<in> set s"
  by (drule exec_hashed_js_SomeD(1)) simp

lemma exec_hashed_js_md5 [simp]: "exec_hashed_js (b @ ''.md5'') = None"
proof (rule ccontr)
  assume "exec_hashed_js (b @ ''.md5'') \<noteq> None"
  then obtain h r where "exec_hashed_js (b @ ''.md5'') = Some (h, r)" by auto
  then have "b @ ''.md5'' = h @ CHR ''-'' # r" and "ends_with r ''.js''"
    by (rule exec_hashed_js_SomeD)+
  then obtain x where "b @ ''.md5'' = h @ CHR ''-'' # x @ ''.js''"
    by (auto simp: ends_with_iff)
  then have "last (b @ ''.md5'') = last (h @ CHR ''-'' # x @ ''.js'')" by simp
  then show False by simp
qed

lemma exec_hashed_js_map [simp]: "exec_hashed_js (f @ ''.map'') = None"
proof (rule ccontr)
  assume "exec_hashed_js (f @ ''.map'') \<noteq> None"
  then obtain h r where "exec_hashed_js (f @ ''.map'') = Some (h, r)" by auto
  then have "f @ ''.map'' = h @ CHR ''-'' # r" and "ends_with r ''.js''"
    by (rule exec_hashed_js_SomeD)+
  then obtain x where "f @ ''.map'' = h @ CHR ''-'' # x @ ''.js''"
    by (auto simp: ends_with_iff)
  then have "last (f @ ''.map'') = last (h @ CHR ''-'' # x @ ''.js'')" by simp
  then show False by simp
qed

lemma exec_hashed_js_chunk:
  "list_all is_hex_char h \<Longrightarrow> exec_hashed_js (h @ ''.chunk.js'') = None"
  by (simp add: exec_hashed_js_def list_all_iff is_hex_char_def)


subsection \<open>The loop\<close>

lemma fake_md5_loop_acc: "fake_md5_loop acc fs = acc @ fake_md5_loop [] fs"
proof (induction fs arbitrary: acc)
  case Nil
  then show ?case by simp
next
  case (Cons f fs)
  show ?case
  proof (cases "fake_md5_of f")
    case None
    then show ?thesis using Cons.IH [of acc] by simp
  next
    case (Some a)
    then show ?thesis using Cons.IH [of "acc @ [a]"] Cons.IH [of "[a]"] by simp
  qed
qed

lemma fake_md5_loop_append:
  "fake_md5_loop [] (xs @ ys) = fake_md5_loop [] xs @ fake_md5_loop [] ys"
proof (induction xs)
  case Nil
  then show ?case by simp
next
  case (Cons x xs)
  then show ?case
    by (cases "fake_md5_of x") (simp_all add: fake_md5_loop_acc [of "[_]"])
qed

lemma set_fake_md5_loop:
  "set (fake_md5_loop [] fs) = {a. \<exists>f \<in> set fs. fake_md5_of f = Some a}"
proof (induction fs)
  case Nil
  then show ?case by simp
next
  case (Cons f fs)
  then show ?case
    by (cases "fake_md5_of f") (auto simp: fake_md5_loop_acc [of "[_]"])
qed

lemma fake_md5_loop_none:
  "(\<And>f. f \<in> set fs \<Longrightarrow> fake_md5_of f = None) \<Longrightarrow> fake_md5_loop [] fs = []"
  by (induction fs) auto

lemma fake_md5_loop_filter:
  "(\<And>f. \<not> P f \<Longrightarrow> fake_md5_of f = None) \<Longrightarrow>
     fake_md5_loop [] (filter P fs) = fake_md5_loop [] fs"
proof (induction fs)
  case Nil
  then show ?case by simp
next
  case (Cons f fs)
  show ?case
  proof (cases "P f")
    case True
    with Cons show ?thesis
      by (cases "fake_md5_of f") (simp_all add: fake_md5_loop_acc [of "[_]"])
  next
    case False
    with Cons.prems have "fake_md5_of f = None" by blast
    with False Cons show ?thesis by simp
  qed
qed

lemma fake_md5_of_Some:
  "fake_md5_of f = Some a \<longleftrightarrow>
     (\<exists>h b. exec_hashed_js (path_basename f) = Some (h, b)
        \<and> a = \<lparr>fake_filename = b @ ''.md5'', fake_contents = h\<rparr>)"
  by (auto simp: fake_md5_of_def split: option.splits)

lemma fake_md5_of_array_index:
  assumes "is_array_index f"
  shows "fake_md5_of f = None"
proof (rule ccontr)
  assume "fake_md5_of f \<noteq> None"
  then obtain h b where "exec_hashed_js (path_basename f) = Some (h, b)"
    by (auto simp: fake_md5_of_def split: option.splits)
  then have "CHR ''-'' \<in> set (path_basename f)" by (rule exec_hashed_js_dash)
  then have "CHR ''-'' \<in> set f" using set_path_basename by blast
  with assms show False by (auto simp: is_array_index_def list_all_iff)
qed

lemma fake_md5_loop_for_in_keys:
  "fake_md5_loop [] (for_in_keys assets) = fake_md5_loop [] (obj_keys assets)"
proof -
  have idx: "fake_md5_loop [] (sort_key decimal_value (filter is_array_index (obj_keys assets))) = []"
    by (rule fake_md5_loop_none) (simp add: fake_md5_of_array_index)
  have rest: "fake_md5_loop [] (filter (\<lambda>k. \<not> is_array_index k) (obj_keys assets))
      = fake_md5_loop [] (obj_keys assets)"
    by (rule fake_md5_loop_filter) (simp add: fake_md5_of_array_index)
  show ?thesis
    by (simp add: for_in_keys_def fake_md5_loop_append idx rest)
qed


subsection \<open>The emit hook\<close>

lemma map_of_unique_value:
  "(k, v) \<in> set xs \<Longrightarrow> (\<And>v'. (k, v') \<in> set xs \<Longrightarrow> v' = v) \<Longrightarrow> map_of xs k = Some v"
  by (metis map_of_SomeD weak_map_of_SomeI)

lemma map_add_idem_right: "(m ++ r) ++ r = m ++ r"
  by (auto simp: map_add_def fun_eq_iff split: option.split)

lemma redirect_emit_fold:
  "redirect_emit assets =
     fold (\<lambda>(k, v). AList.update k v)
       (map (\<lambda>a. (fake_filename a, RawSource (fake_contents a)))
          (fake_md5_loop [] (obj_keys assets))) assets"
  by (simp add: redirect_emit_def install_fake_md5_assets_def fold_map comp_def
      fake_md5_loop_for_in_keys)

lemma sidecar_entries_iff:
  "(k, v) \<in> set (map (\<lambda>a. (fake_filename a, RawSource (fake_contents a)))
                   (fake_md5_loop [] fs)) \<longleftrightarrow>
     (\<exists>g \<in> set fs. \<exists>h b. exec_hashed_js (path_basename g) = Some (h, b)
        \<and> k = b @ ''.md5'' \<and> v = RawSource h)"
proof
  assume "(k, v) \<in> set (map (\<lambda>a. (fake_filename a, RawSource (fake_contents a)))
                   (fake_md5_loop [] fs))"
  then show "\<exists>g \<in> set fs. \<exists>h b. exec_hashed_js (path_basename g) = Some (h, b)
        \<and> k = b @ ''.md5'' \<and> v = RawSource h"
    by (auto simp: set_fake_md5_loop fake_md5_of_Some)
next
  assume "\<exists>g \<in> set fs. \<exists>h b. exec_hashed_js (path_basename g) = Some (h, b)
        \<and> k = b @ ''.md5'' \<and> v = RawSource h"
  then obtain g h b where "g \<in> set fs" and "exec_hashed_js (path_basename g) = Some (h, b)"
    and kv: "k = b @ ''.md5''" "v = RawSource h"
    by blast
  then have "\<lparr>fake_filename = b @ ''.md5'', fake_contents = h\<rparr> \<in> set (fake_md5_loop [] fs)"
    by (auto simp: set_fake_md5_loop fake_md5_of_Some)
  then show "(k, v) \<in> set (map (\<lambda>a. (fake_filename a, RawSource (fake_contents a)))
                   (fake_md5_loop [] fs))"
    using kv by force
qed

lemma exec_basename_capture_flat:
  assumes "exec_hashed_js (path_basename g) = Some (h, b)"
  shows "CHR ''/'' \<notin> set b"
proof -
  from assms have "path_basename g = h @ CHR ''-'' # b" by (rule exec_hashed_js_SomeD)
  then have "set b \<subseteq> set (path_basename g)" by auto
  then show ?thesis using path_basename_no_slash by blast
qed

lemma fake_md5_of_sidecar_name:
  "exec_hashed_js (path_basename g) = Some (h, b) \<Longrightarrow> fake_md5_of (b @ ''.md5'') = None"
  by (drule exec_basename_capture_flat) (simp add: fake_md5_of_def)

lemma redirect_emit_map_of:
  "map_of (redirect_emit assets) =
     map_of assets ++ map_of (rev (map (\<lambda>a. (fake_filename a, RawSource (fake_contents a)))
                                      (fake_md5_loop [] (obj_keys assets))))"
  by (simp add: redirect_emit_fold map_of_fold_update)

lemma sidecar_kvs_value:
  assumes f: "f \<in> set (obj_keys assets)"
    and m: "exec_hashed_js (path_basename f) = Some (h, b)"
    and uniq: "\<forall>g \<in> set (obj_keys assets). \<forall>h' b'.
                 exec_hashed_js (path_basename g) = Some (h', b') \<longrightarrow> b' = b \<longrightarrow> g = f"
  shows "map_of (rev (map (\<lambda>a. (fake_filename a, RawSource (fake_contents a)))
                       (fake_md5_loop [] (obj_keys assets)))) (b @ ''.md5'') = Some (RawSource h)"
proof -
  let ?kvs = "map (\<lambda>a. (fake_filename a, RawSource (fake_contents a)))
                (fake_md5_loop [] (obj_keys assets))"
  have "(b @ ''.md5'', RawSource h) \<in> set (rev ?kvs)"
    using f m by (auto simp only: set_rev sidecar_entries_iff)
  moreover have "v' = RawSource h" if "(b @ ''.md5'', v') \<in> set (rev ?kvs)" for v'
  proof -
    from that obtain g h' b' where "g \<in> set (obj_keys assets)"
      and "exec_hashed_js (path_basename g) = Some (h', b')"
      and "b @ ''.md5'' = b' @ ''.md5''" and "v' = RawSource h'"
      by (auto simp only: set_rev sidecar_entries_iff)
    with uniq m show ?thesis by auto
  qed
  ultimately show ?thesis by (rule map_of_unique_value)
qed

lemma sidecar_kvs_none:
  assumes "\<forall>g \<in> set (obj_keys assets). \<forall>h b.
             exec_hashed_js (path_basename g) = Some (h, b) \<longrightarrow> k \<noteq> b @ ''.md5''"
  shows "map_of (rev (map (\<lambda>a. (fake_filename a, RawSource (fake_contents a)))
                       (fake_md5_loop [] (obj_keys assets)))) k = None"
proof -
  let ?kvs = "map (\<lambda>a. (fake_filename a, RawSource (fake_contents a)))
                (fake_md5_loop [] (obj_keys assets))"
  have "k \<notin> fst ` set ?kvs"
  proof
    assume "k \<in> fst ` set ?kvs"
    then obtain v where "(k, v) \<in> set ?kvs" by force
    then obtain g h b where "g \<in> set (obj_keys assets)"
      and "exec_hashed_js (path_basename g) = Some (h, b)" and "k = b @ ''.md5''"
      by (auto simp only: sidecar_entries_iff)
    with assms show False by blast
  qed
  then show ?thesis by (simp add: map_of_eq_None_iff)
qed

text \<open>A name ending in \<open>.js\<close> is never a sidecar name.\<close>

lemma js_name_not_sidecar:
  assumes "ends_with f ''.js''"
  shows "f \<noteq> b @ ''.md5''"
proof
  assume "f = b @ ''.md5''"
  moreover from assms obtain x where "f = x @ ''.js''" by (auto simp: ends_with_iff)
  ultimately have "last (x @ ''.js'') = last (b @ ''.md5'')" by simp
  then show False by simp
qed

lemma hashed_name_ends_js:
  assumes "exec_hashed_js (path_basename f) = Some (h, b)"
  shows "ends_with f ''.js''"
proof -
  obtain d where f: "f = d @ path_basename f" using path_basename_suffix by blast
  from assms have "path_basename f = h @ CHR ''-'' # b" and "ends_with b ''.js''"
    by (rule exec_hashed_js_SomeD)+
  with f show ?thesis by (metis append.assoc append_Cons ends_with_iff)
qed

text \<open>Claim C2 (shim correctness): if an asset \<open>f\<close> has a base name
  \<open><hash>-<b>\<close> matching the pattern, and no other asset's base name captures the same
  \<open><b>\<close>, then after the emit hook the asset \<open><b>.md5\<close> exists and its source is
  exactly \<open><hash>\<close>, with nothing added and no re-hashing, while \<open>f\<close> itself is
  still there unchanged, so the name the sidecar points to resolves.\<close>

theorem redirect_emit_sidecar:
  assumes f: "f \<in> set (obj_keys assets)"
    and m: "exec_hashed_js (path_basename f) = Some (h, b)"
    and uniq: "\<forall>g \<in> set (obj_keys assets). \<forall>h' b'.
                 exec_hashed_js (path_basename g) = Some (h', b') \<longrightarrow> b' = b \<longrightarrow> g = f"
  shows "map_of (redirect_emit assets) (b @ ''.md5'') = Some (RawSource h)
    \<and> map_of (redirect_emit assets) f = map_of assets f"
proof
  show "map_of (redirect_emit assets) (b @ ''.md5'') = Some (RawSource h)"
    using sidecar_kvs_value [OF f m uniq] by (simp add: redirect_emit_map_of)
next
  have "ends_with f ''.js''" using m by (rule hashed_name_ends_js)
  then have "\<forall>g \<in> set (obj_keys assets). \<forall>h b.
             exec_hashed_js (path_basename g) = Some (h, b) \<longrightarrow> f \<noteq> b @ ''.md5''"
    using js_name_not_sidecar by blast
  then show "map_of (redirect_emit assets) f = map_of assets f"
    by (simp add: redirect_emit_map_of sidecar_kvs_none map_add_def)
qed

text \<open>Claim C7 (frame): the hook leaves every asset whose name is not one of the
  sidecar names \<open><b>.md5\<close> it derives exactly as it was.\<close>

theorem redirect_emit_frame:
  assumes "\<forall>g \<in> set (obj_keys assets). \<forall>h b.
             exec_hashed_js (path_basename g) = Some (h, b) \<longrightarrow> k \<noteq> b @ ''.md5''"
  shows "map_of (redirect_emit assets) k = map_of assets k"
  using sidecar_kvs_none [OF assms] by (simp add: redirect_emit_map_of map_add_def)

text \<open>Claim C8 (additive): the hook removes and reorders no asset: the new key
  list is the old one followed by exactly the derived sidecar names that were not keys
  already.\<close>

theorem redirect_emit_keys:
  "\<exists>ys. obj_keys (redirect_emit assets) = obj_keys assets @ ys
      \<and> set ys = {b @ ''.md5'' | g h b. g \<in> set (obj_keys assets)
                     \<and> exec_hashed_js (path_basename g) = Some (h, b)}
                 - set (obj_keys assets)"
proof -
  let ?kvs = "map (\<lambda>a. (fake_filename a, RawSource (fake_contents a)))
                (fake_md5_loop [] (obj_keys assets))"
  have "set (map fst ?kvs) = {b @ ''.md5'' | g h b. g \<in> set (obj_keys assets)
                     \<and> exec_hashed_js (path_basename g) = Some (h, b)}"
    by (force simp: set_fake_md5_loop fake_md5_of_Some)
  with fold_update_keys [of ?kvs assets] show ?thesis
    by (simp only: redirect_emit_fold)
qed

text \<open>Non-shimmed assets: when no base name matches the pattern (shared
  chunks \<open><hash>.chunk.js\<close>, source maps, stylesheets) the hook changes nothing.\<close>

lemma redirect_emit_unmatched:
  assumes "\<forall>g \<in> set (obj_keys assets). exec_hashed_js (path_basename g) = None"
  shows "redirect_emit assets = assets"
proof -
  have "fake_md5_loop [] (obj_keys assets) = []"
    using assms by (intro fake_md5_loop_none) (auto simp: fake_md5_of_def)
  then show ?thesis by (simp add: redirect_emit_fold)
qed

lemma redirect_emit_keys_flat:
  assumes "\<forall>k \<in> set (obj_keys assets). CHR ''/'' \<notin> set k"
  shows "\<forall>k \<in> set (obj_keys (redirect_emit assets)). CHR ''/'' \<notin> set k"
proof
  fix k assume k: "k \<in> set (obj_keys (redirect_emit assets))"
  let ?kvs = "map (\<lambda>a. (fake_filename a, RawSource (fake_contents a)))
                (fake_md5_loop [] (obj_keys assets))"
  from k have "k \<in> set (obj_keys assets) \<or> k \<in> set (map fst ?kvs)"
    unfolding redirect_emit_fold set_fold_update_keys by blast
  then show "CHR ''/'' \<notin> set k"
  proof
    assume "k \<in> set (obj_keys assets)"
    with assms show ?thesis by blast
  next
    assume "k \<in> set (map fst ?kvs)"
    then obtain v where "(k, v) \<in> set ?kvs" by force
    then obtain g h b where "exec_hashed_js (path_basename g) = Some (h, b)" and "k = b @ ''.md5''"
      by (auto simp only: sidecar_entries_iff)
    then show ?thesis using exec_basename_capture_flat by auto
  qed
qed

lemma redirect_emit_distinct:
  "distinct (obj_keys assets) \<Longrightarrow> distinct (obj_keys (redirect_emit assets))"
  by (simp add: redirect_emit_fold distinct_fold_update)

text \<open>Claim C24 (idempotence): running the hook a second time on its own output
  changes nothing: sidecar names never match the pattern and the sidecars are rewritten
  with the same contents.\<close>

theorem redirect_emit_idempotent:
  assumes d: "distinct (obj_keys assets)"
  shows "redirect_emit (redirect_emit assets) = redirect_emit assets"
proof -
  let ?kvs = "map (\<lambda>a. (fake_filename a, RawSource (fake_contents a)))
                (fake_md5_loop [] (obj_keys assets))"
  let ?r = "fold (\<lambda>(k, v). AList.update k v) ?kvs assets"
  obtain ys where keys: "obj_keys ?r = obj_keys assets @ ys"
    and ys: "set ys = set (map fst ?kvs) - set (obj_keys assets)"
    using fold_update_keys by blast
  have "fake_md5_of y = None" if "y \<in> set ys" for y
    using that ys by (auto simp: set_fake_md5_loop fake_md5_of_Some fake_md5_of_sidecar_name)
  then have "fake_md5_loop [] ys = []" by (rule fake_md5_loop_none)
  then have same: "fake_md5_loop [] (obj_keys ?r) = fake_md5_loop [] (obj_keys assets)"
    by (simp add: keys fake_md5_loop_append)
  have "fold (\<lambda>(k, v). AList.update k v) ?kvs ?r = ?r"
  proof (rule alist_eqI [symmetric])
    show "obj_keys ?r = obj_keys (fold (\<lambda>(k, v). AList.update k v) ?kvs ?r)"
      by (rule fold_update_keys_same [symmetric]) (unfold set_fold_update_keys, blast)
    show "map_of ?r = map_of (fold (\<lambda>(k, v). AList.update k v) ?kvs ?r)"
      by (simp add: map_of_fold_update map_add_idem_right)
    show "distinct (obj_keys ?r)"
      using d by (rule distinct_fold_update)
  qed
  then show ?thesis
    by (simp only: redirect_emit_fold same)
qed



text \<open>Iteration order: the order in which \<open>for ... in\<close> visits the keys
  (array-index keys first) does not matter: the hook computes the same assets as a walk
  over the keys in insertion order, because no array index matches the pattern.\<close>

lemma redirect_emit_for_in_order:
  "redirect_emit assets = install_fake_md5_assets (fake_md5_loop [] (obj_keys assets)) assets"
  by (simp add: redirect_emit_def fake_md5_loop_for_in_keys)

text \<open>Equivalence: the greedy scan \<open>exec_hashed_js\<close> returns exactly the
  capture groups of a match of \<open>/^([a-f0-9]+)-(.*\.js)$/\<close>, and \<open>None\<close> exactly when
  the name does not match; the captures of a match are unique, so the choice a
  backtracking matcher makes is irrelevant.\<close>

lemma exec_hashed_js_correct:
  "(exec_hashed_js s = Some (h, r) \<longleftrightarrow> hashed_js_captures s h r)
   \<and> (exec_hashed_js s = None \<longleftrightarrow> (\<forall>h r. \<not> hashed_js_captures s h r))
   \<and> (hashed_js_captures s h r \<longrightarrow> hashed_js_captures s h' r' \<longrightarrow> h' = h \<and> r' = r)"
  using exec_hashed_js_iff hashed_js_captures_unique
  by (metis not_None_eq surj_pair)

lemma fake_md5_of_wf: "fake_md5_of f = Some a \<Longrightarrow> fake_md5_asset_wf a"
proof -
  assume "fake_md5_of f = Some a"
  then obtain h b where m: "exec_hashed_js (path_basename f) = Some (h, b)"
    and a: "a = \<lparr>fake_filename = b @ ''.md5'', fake_contents = h\<rparr>"
    by (auto simp: fake_md5_of_Some)
  from m have "hashed_js_captures (path_basename f) h b" by (simp add: exec_hashed_js_iff)
  then have "h \<noteq> []" "list_all is_hex_char h" "ends_with b ''.js''"
    by (simp_all add: hashed_js_captures_def)
  moreover have "CHR ''/'' \<notin> set b" using m by (rule exec_basename_capture_flat)
  ultimately show ?thesis
    by (auto simp: a fake_md5_asset_wf_def ends_with_iff)
qed

text \<open>Claim C17 (well-formed records): the loop of lines 64--79 only ever pushes
  well-formed records: each names a flat \<open><name>.js.md5\<close> and holds a nonempty hex
  string, and the invariant holds of the accumulator at every step.\<close>

theorem fake_md5_loop_wf:
  "list_all fake_md5_asset_wf acc \<Longrightarrow> list_all fake_md5_asset_wf (fake_md5_loop acc fs)"
proof (induction fs arbitrary: acc)
  case Nil
  then show ?case by simp
next
  case (Cons f fs)
  then show ?case
    by (cases "fake_md5_of f") (auto dest: fake_md5_of_wf)
qed

text \<open>Array-index bound: the loop of line 66 visits array-index keys first,
  in numeric order; an array index has at most ten digits and is at most
  \<open>4294967294\<close>, so \<open>4294967295\<close> and non-canonical \<open>07\<close> keep their insertion
  order.\<close>

lemma for_in_keys_index_bound:
  "(is_array_index k \<longrightarrow> length k \<le> 10 \<and> decimal_value k \<le> 4294967294)
   \<and> for_in_keys [(''b'', ()), (''4294967295'', ()), (''10'', ()), (''4294967294'', ()), (''2'', ()), (''07'', ())]
       = [''2'', ''10'', ''4294967294'', ''b'', ''4294967295'', ''07'']"
proof
  show "is_array_index k \<longrightarrow> length k \<le> 10 \<and> decimal_value k \<le> 4294967294"
    using array_index_length by (auto simp: is_array_index_def)
  show "for_in_keys [(''b'', ()), (''4294967295'', ()), (''10'', ()), (''4294967294'', ()), (''2'', ()), (''07'', ())]
       = [''2'', ''10'', ''4294967294'', ''b'', ''4294967295'', ''07'']"
    by code_simp
qed

subsection \<open>Evaluation and witnesses\<close>

lemmas shim_eval = exec_hashed_js_def is_hex_char_def is_line_terminator_def ends_with_def
  path_basename_def fake_md5_of_def

theorem exec_hashed_js_roundtrip_witness:
  "''abcd1234'' \<noteq> [] \<and> list_all is_hex_char ''abcd1234''
   \<and> list_all (\<lambda>c. \<not> is_line_terminator c) ''DocumentSet-show''
   \<and> exec_hashed_js (''abcd1234'' @ CHR ''-'' # ''DocumentSet-show'' @ ''.js'')
       = Some (''abcd1234'', ''DocumentSet-show'' @ ''.js'')"
proof -
  have h: "''abcd1234'' \<noteq> []" by simp
  have x: "list_all is_hex_char ''abcd1234''" by (simp add: is_hex_char_def)
  have n: "list_all (\<lambda>c. \<not> is_line_terminator c) ''DocumentSet-show''"
    by (simp add: is_line_terminator_def)
  show ?thesis using h x n exec_hashed_js_roundtrip [OF h x n] by blast
qed

theorem redirect_emit_sidecar_witness:
  "''abcd1234-home.js'' \<in> set (obj_keys [(''abcd1234-home.js'', RawSource ''x''),
                                     (''abcd1234-home.js.map'', RawSource ''m'')])
   \<and> exec_hashed_js (path_basename ''abcd1234-home.js'') = Some (''abcd1234'', ''home.js'')
   \<and> map_of (redirect_emit [(''abcd1234-home.js'', RawSource ''x''),
                            (''abcd1234-home.js.map'', RawSource ''m'')]) (''home.js'' @ ''.md5'')
       = Some (RawSource ''abcd1234'')
   \<and> map_of (redirect_emit [(''abcd1234-home.js'', RawSource ''x''),
                            (''abcd1234-home.js.map'', RawSource ''m'')]) ''abcd1234-home.js''
       = Some (RawSource ''x'')"
proof -
  have f: "''abcd1234-home.js'' \<in> set (obj_keys [(''abcd1234-home.js'', RawSource ''x''),
                                     (''abcd1234-home.js.map'', RawSource ''m'')])"
    by simp
  have m: "exec_hashed_js (path_basename ''abcd1234-home.js'') = Some (''abcd1234'', ''home.js'')"
    by (simp add: shim_eval)
  have u: "\<forall>g \<in> set (obj_keys [(''abcd1234-home.js'', RawSource ''x''),
                           (''abcd1234-home.js.map'', RawSource ''m'')]).
        \<forall>h' b'. exec_hashed_js (path_basename g) = Some (h', b') \<longrightarrow> b' = ''home.js''
          \<longrightarrow> g = ''abcd1234-home.js''"
    by (simp add: shim_eval)
  show ?thesis using f m redirect_emit_sidecar [OF f m u] by simp
qed

theorem redirect_emit_frame_witness:
  "map_of (redirect_emit [(''abcd1234-home.js'', RawSource ''x''),
                          (''home.css'', RawSource ''c'')]) ''home.css''
     = map_of [(''abcd1234-home.js'', RawSource ''x''), (''home.css'', RawSource ''c'')] ''home.css''"
proof -
  have k: "\<forall>g \<in> set (obj_keys [(''abcd1234-home.js'', RawSource ''x''),
                         (''home.css'', RawSource ''c'')]).
      \<forall>h b. exec_hashed_js (path_basename g) = Some (h, b) \<longrightarrow> ''home.css'' \<noteq> b @ ''.md5''"
    by (simp add: shim_eval)
  show ?thesis by (rule redirect_emit_frame [OF k])
qed

theorem redirect_emit_idempotent_witness:
  "distinct (obj_keys [(''abcd-home.js'', RawSource ''x'')])
   \<and> redirect_emit (redirect_emit [(''abcd-home.js'', RawSource ''x'')])
       = redirect_emit [(''abcd-home.js'', RawSource ''x'')]"
proof -
  have d: "distinct (obj_keys [(''abcd-home.js'', RawSource ''x'')])" by simp
  show ?thesis using d redirect_emit_idempotent [OF d] by blast
qed

subsection \<open>Behaviours the comments and the host convention do not describe\<close>

text \<open>Claim C25 (one sidecar per base name): when several assets capture the same
  base name \<open><b>\<close>, the single sidecar \<open><b>.md5\<close> holds the hash of the one visited
  last (hashed names are no array indices, so \<open>for ... in\<close> visits them in insertion
  order), whatever the other assets' directories and whatever \<open><b>.md5\<close> held before.
  The comment above the plugin expects \<open>[dirname]/[basename].js.md5\<close>, one per
  script; the sidecar of a nested asset lands at the root instead, and a base name shared
  by two directories gets one sidecar.\<close>

theorem redirect_emit_last_hash_wins:
  assumes keys: "obj_keys assets = xs @ f # ys"
    and m: "exec_hashed_js (path_basename f) = Some (h, b)"
    and later: "\<forall>g \<in> set ys. \<forall>h' b'. exec_hashed_js (path_basename g) = Some (h', b') \<longrightarrow> b' \<noteq> b"
  shows "map_of (redirect_emit assets) (b @ ''.md5'') = Some (RawSource h)"
proof -
  let ?F = "\<lambda>a. (fake_filename a, RawSource (fake_contents a))"
  have fa: "fake_md5_of f = Some \<lparr>fake_filename = b @ ''.md5'', fake_contents = h\<rparr>"
    using m by (simp add: fake_md5_of_Some)
  have loop: "fake_md5_loop [] (obj_keys assets) = fake_md5_loop [] xs
      @ [\<lparr>fake_filename = b @ ''.md5'', fake_contents = h\<rparr>] @ fake_md5_loop [] ys"
    using fa by (simp add: keys fake_md5_loop_append fake_md5_loop_acc [of "[_]"])
  have "b @ ''.md5'' \<notin> fst ` set (map ?F (fake_md5_loop [] ys))"
  proof
    assume "b @ ''.md5'' \<in> fst ` set (map ?F (fake_md5_loop [] ys))"
    then obtain v where "(b @ ''.md5'', v) \<in> set (map ?F (fake_md5_loop [] ys))" by force
    then obtain g h' b' where "g \<in> set ys" and "exec_hashed_js (path_basename g) = Some (h', b')"
      and "b @ ''.md5'' = b' @ ''.md5''"
      by (auto simp only: sidecar_entries_iff)
    with later show False by auto
  qed
  then have "map_of (rev (map ?F (fake_md5_loop [] ys))) (b @ ''.md5'') = None"
    by (simp add: map_of_eq_None_iff)
  then have "map_of (rev (map ?F (fake_md5_loop [] (obj_keys assets)))) (b @ ''.md5'')
      = Some (RawSource h)"
    by (simp add: loop map_of_append map_add_def)
  then show ?thesis by (simp add: redirect_emit_map_of)
qed

theorem redirect_emit_last_hash_wins_witness:
  "map_of (redirect_emit [(''x.js.md5'', RawSource ''old''), (''js/aa-x.js'', RawSource ''p''),
                          (''bb-x.js'', RawSource ''q''), (''x.css'', RawSource ''c'')])
     (''x.js'' @ ''.md5'') = Some (RawSource ''bb'')"
  by (rule redirect_emit_last_hash_wins [of _ "[''x.js.md5'', ''js/aa-x.js'']" "''bb-x.js''" "[''x.css'']"])
    (simp_all add: shim_eval)

theorem fake_md5_loop_wf_witness:
  "list_all fake_md5_asset_wf
     (fake_md5_loop [\<lparr>fake_filename = ''a.js.md5'', fake_contents = ''ff''\<rparr>]
        [''abcd-home.js'', ''ab.chunk.js'', ''js/12-x.js.map''])"
  by (rule fake_md5_loop_wf) (simp add: fake_md5_asset_wf_def ends_with_def is_hex_char_def)

end
