(* ===== verification/Entries.thy ===== *)
theory Entries
  imports Prelude
begin

text \<open>
  The entry registry of \<open>src/web/webpack.config.js\<close>: the fixed list \<open>entryPoints\<close>
  (lines 8--24) and the loop of lines 92--95 that builds \<open>entryPointsMap\<close>, keyed by
  the entry point with every \<open>'/'\<close> replaced by \<open>'-'\<close> and valued
  \<open>bundle/<entry point>\<close>. The keys become webpack's \<open>[name]\<close>, so they are the
  base names of the emitted entry chunks. The spec's registry contract (names unique,
  \<open>DuplicateEntryName\<close> otherwise) is modelled from the spec as
  \<open>register_entries\<close>; the configuration itself performs no such check.
\<close>

text \<open>Lines 8--24.\<close>

definition entryPoints :: "string list" where
  "entryPoints =
     [''admin/Job/index'', ''admin/Plugin/index'', ''admin/User/index'', ''ApiToken/index'',
      ''CsvUpload/new'', ''DocumentCloudImportJob/new'', ''DocumentCloudProject/index'',
      ''DocumentSet/index'', ''DocumentSet/show'', ''DocumentSet/show-progress'',
      ''DocumentSetUser/index'', ''FileImport/new'', ''PublicDocumentSet/index'',
      ''SharedDocumentSet/index'', ''Welcome/show'']"

text \<open>Line 94, the key: \<open>entryPoint.replace(/\//g, '-')\<close>.\<close>

definition entry_key :: "string \<Rightarrow> string" where
  "entry_key entryPoint = replace_char (CHR ''/'') (CHR ''-'') entryPoint"

text \<open>Line 94, the value: \<open>`bundle/${entryPoint}`\<close>.\<close>

definition entry_module :: "string \<Rightarrow> string" where
  "entry_module entryPoint = ''bundle/'' @ entryPoint"

text \<open>Lines 92--95: the \<open>for ... of\<close> loop assigning into the object.\<close>

fun entry_points_loop :: "string jsobject \<Rightarrow> string list \<Rightarrow> string jsobject" where
  "entry_points_loop m [] = m"
| "entry_points_loop m (entryPoint # es) =
     entry_points_loop (AList.update (entry_key entryPoint) (entry_module entryPoint) m) es"

definition entryPointsMap :: "string jsobject" where
  "entryPointsMap = entry_points_loop [] entryPoints"

text \<open>The spec's registry (section 4.2): entries are registered in order and a second
  entry with a name already taken fails with \<open>DuplicateEntryName\<close>.\<close>

datatype config_error = DuplicateEntryName string

fun register_entries ::
  "(string \<times> string) list \<Rightarrow> (string \<times> string) list \<Rightarrow> config_error + (string \<times> string) list"
where
  "register_entries reg [] = Inr reg"
| "register_entries reg ((name, path) # es) =
     (if name \<in> set (map fst reg) then Inl (DuplicateEntryName name)
      else register_entries (reg @ [(name, path)]) es)"

subsection \<open>Lemmas\<close>

lemma entry_points_loop_fold:
  "entry_points_loop m es =
     fold (\<lambda>(k, v). AList.update k v) (map (\<lambda>e. (entry_key e, entry_module e)) es) m"
  by (induction es arbitrary: m) simp_all

lemma entry_key_flat [simp]: "CHR ''/'' \<notin> set (entry_key e)"
  by (simp add: entry_key_def replace_char_removes)


text \<open>Flat names: no key of the entry object contains \<open>'/'\<close>, for any
  list of entry points, so the entry chunk names \<open>[chunkhash]-[name].js\<close> live in one
  flat directory, which the plugin's comment relies on.\<close>

lemma entry_points_loop_flat:
  "list_all (\<lambda>k. CHR ''/'' \<notin> set k) (obj_keys (entry_points_loop [] es))"
proof -
  have "set (obj_keys (entry_points_loop [] es)) = set (map entry_key es)"
    unfolding entry_points_loop_fold set_fold_update_keys by auto
  then show ?thesis by (auto simp: list_all_iff)
qed

lemmas entries_eval = entryPoints_def entry_key_def entry_module_def replace_char_def

text \<open>The entry names are pairwise distinct, so the loop keeps every entry point.\<close>

lemma entry_keys_distinct: "distinct (map entry_key entryPoints)"
  by (simp add: entries_eval)

lemma entryPointsMap_map: "entryPointsMap = map (\<lambda>e. (entry_key e, entry_module e)) entryPoints"
proof -
  from entry_keys_distinct show ?thesis
    by (simp add: entryPointsMap_def entry_points_loop_fold fold_update_fresh comp_def)
qed

lemma register_entries_Inr:
  "register_entries reg kvs = Inr r \<Longrightarrow> distinct (map fst reg) \<Longrightarrow>
     r = reg @ kvs \<and> distinct (map fst r)"
proof (induction reg kvs rule: register_entries.induct)
  case (1 reg)
  then show ?case by simp
next
  case (2 reg name path es)
  show ?case
  proof (cases "name \<in> set (map fst reg)")
    case True
    with "2.prems" show ?thesis by simp
  next
    case False
    with "2.prems" have rec: "register_entries (reg @ [(name, path)]) es = Inr r" by simp
    from False "2.prems"(2) have "distinct (map fst (reg @ [(name, path)]))" by simp
    from "2.IH" [OF False rec this]
    have "r = (reg @ [(name, path)]) @ es" and "distinct (map fst r)" by blast+
    then show ?thesis by (simp only: append_assoc append_Cons append_Nil)
  qed
qed

lemma register_entries_distinct:
  "distinct (map fst (reg @ kvs)) \<Longrightarrow> register_entries reg kvs = Inr (reg @ kvs)"
  by (induction reg kvs rule: register_entries.induct) auto

text \<open>Configuration satisfies the contract: the fifteen entry points of
  the configuration have distinct names, so the registry accepts them and yields exactly
  \<open>entryPointsMap\<close>.\<close>

lemma entryPoints_registered:
  "register_entries [] (map (\<lambda>e. (entry_key e, entry_module e)) entryPoints) = Inr entryPointsMap"
proof -
  have d: "distinct (map entry_key entryPoints)"
    by (simp add: entries_eval)
  have eq: "map (\<lambda>e. (entry_key e, entry_module e)) entryPoints = entryPointsMap"
    by (simp only: entryPointsMap_map)
  have "register_entries [] (map (\<lambda>e. (entry_key e, entry_module e)) entryPoints)
      = Inr (map (\<lambda>e. (entry_key e, entry_module e)) entryPoints)"
    using d register_entries_distinct [of "[]" "map (\<lambda>e. (entry_key e, entry_module e)) entryPoints"]
    by (simp add: comp_def)
  then show ?thesis by (simp only: eq)
qed

lemma register_entries_result:
  "(\<exists>n. register_entries [] kvs = Inl (DuplicateEntryName n)) \<longleftrightarrow> \<not> distinct (map fst kvs)"
proof
  assume "\<exists>n. register_entries [] kvs = Inl (DuplicateEntryName n)"
  then show "\<not> distinct (map fst kvs)" using register_entries_distinct [of "[]" kvs] by auto
next
  assume nd: "\<not> distinct (map fst kvs)"
  show "\<exists>n. register_entries [] kvs = Inl (DuplicateEntryName n)"
  proof (cases "register_entries [] kvs")
    case (Inl err)
    then show ?thesis by (cases err) blast
  next
    case (Inr r)
    from register_entries_Inr [OF Inr] nd show ?thesis by auto
  qed
qed

text \<open>Claim C27 (no duplicate check): for any list of entry points, the loop keeps
  each key once, in the order of its first entry point, mapped to the module of the
  last entry point with that key: entry points that collide after the replacement,
  such as \<open>a/b\<close> and \<open>a-b\<close>, are silently merged. The spec's registry instead fails
  with \<open>DuplicateEntryName\<close>, exactly on those lists.\<close>

theorem entry_points_loop_last_wins:
  "obj_keys (entry_points_loop [] es) = rev (remdups (rev (map entry_key es)))
   \<and> (\<forall>e \<in> set es. map_of (entry_points_loop [] es) (entry_key e)
        = Some (entry_module (last (filter (\<lambda>e'. entry_key e' = entry_key e) es))))
   \<and> ((\<exists>n. register_entries [] (map (\<lambda>e. (entry_key e, entry_module e)) es)
          = Inl (DuplicateEntryName n)) \<longleftrightarrow> \<not> distinct (map entry_key es))"
proof (intro conjI ballI)
  show "obj_keys (entry_points_loop [] es) = rev (remdups (rev (map entry_key es)))"
    by (simp add: entry_points_loop_fold fold_update_keys_first comp_def)
next
  fix e assume "e \<in> set es"
  then show "map_of (entry_points_loop [] es) (entry_key e)
      = Some (entry_module (last (filter (\<lambda>e'. entry_key e' = entry_key e) es)))"
    by (simp add: entry_points_loop_fold map_of_fold_update map_of_rev_map_last)
next
  show "(\<exists>n. register_entries [] (map (\<lambda>e. (entry_key e, entry_module e)) es)
          = Inl (DuplicateEntryName n)) \<longleftrightarrow> \<not> distinct (map entry_key es)"
    by (simp add: register_entries_result comp_def)
qed


subsection \<open>Witnesses\<close>


theorem entry_points_loop_last_wins_witness:
  "obj_keys (entry_points_loop [] [''a/b'', ''c'', ''a-b'']) = [''a-b'', ''c'']
   \<and> map_of (entry_points_loop [] [''a/b'', ''c'', ''a-b'']) ''a-b'' = Some ''bundle/a-b''
   \<and> (\<exists>n. register_entries [] (map (\<lambda>e. (entry_key e, entry_module e)) [''a/b'', ''c'', ''a-b''])
          = Inl (DuplicateEntryName n))"
  using entry_points_loop_last_wins [of "[''a/b'', ''c'', ''a-b'']"] by (simp add: entries_eval)

end
