(* ===== verification/Output.thy ===== *)
theory Output
  imports Prelude
begin

text \<open>
  The \<open>output\<close> section of \<open>src/web/webpack.config.js\<close> (lines 107--118) and the
  file names webpack derives from it. The three templates \<open>[chunkhash]-[name].js\<close>,
  \<open>[file].map\<close> and \<open>[chunkhash].chunk.js\<close> are configuration; the substitution of
  their placeholders is webpack's (its \<open>TemplatedPathPlugin\<close>), modelled from the
  spec as a single left-to-right pass that replaces each \<open>[tag]\<close> with a known tag
  by its value and copies everything else.
\<close>

text \<open>Lines 107--118; \<open>__dirname\<close> is a parameter.\<close>

record output_config =
  output_path :: string
  output_publicPath :: string
  output_filename :: string
  output_sourceMapFilename :: string
  output_chunkFilename :: string
  output_library :: string
  output_libraryTarget :: string

definition webpack_output :: "string \<Rightarrow> output_config" where
  "webpack_output dirname =
     \<lparr>output_path = dirname @ ''/public/javascript-bundles'',
      output_publicPath = ''/assets/javascript-bundles/'',
      output_filename = ''[chunkhash]-[name].js'',
      output_sourceMapFilename = ''[file].map'',
      output_chunkFilename = ''[chunkhash].chunk.js'',
      output_library = ''jQuery'',
      output_libraryTarget = ''window''\<rparr>"

text \<open>Placeholder substitution: at a \<open>'['\<close>, the first variable whose tag followed by
  \<open>']'\<close> starts the rest of the template is substituted.\<close>

function fill_template :: "(string \<times> string) list \<Rightarrow> string \<Rightarrow> string" where
  "fill_template vars [] = []"
| "fill_template vars (c # cs) =
     (case (if c = CHR ''['' then find (\<lambda>(tag, _). starts_with cs (tag @ '']'')) vars else None) of
        Some (tag, v) \<Rightarrow> v @ fill_template vars (drop (Suc (length tag)) cs)
      | None \<Rightarrow> c # fill_template vars cs)"
  by pat_completeness auto
termination
  by (relation "measure (\<lambda>(vars, s). length s)") auto

text \<open>The name of an entry chunk (\<open>output.filename\<close>), of a shared chunk
  (\<open>output.chunkFilename\<close>) and of a source map (\<open>output.sourceMapFilename\<close>,
  where \<open>[file]\<close> is the script's own file name).\<close>

definition entry_chunk_name :: "output_config \<Rightarrow> string \<Rightarrow> string \<Rightarrow> string" where
  "entry_chunk_name cfg chunkhash name =
     fill_template [(''chunkhash'', chunkhash), (''name'', name)] (output_filename cfg)"

definition shared_chunk_name :: "output_config \<Rightarrow> string \<Rightarrow> string \<Rightarrow> string" where
  "shared_chunk_name cfg chunkhash chunkid =
     fill_template [(''chunkhash'', chunkhash), (''id'', chunkid)] (output_chunkFilename cfg)"

definition source_map_name :: "output_config \<Rightarrow> string \<Rightarrow> string" where
  "source_map_name cfg file = fill_template [(''file'', file)] (output_sourceMapFilename cfg)"

subsection \<open>The configured names\<close>

lemma fill_template_literal: "CHR ''['' \<notin> set s \<Longrightarrow> fill_template vars s = s"
  by (induction s) auto

lemma webpack_entry_chunk_name [simp]:
  "entry_chunk_name (webpack_output d) h n = h @ CHR ''-'' # n @ ''.js''"
  by (simp add: entry_chunk_name_def webpack_output_def starts_with_def)

lemma webpack_shared_chunk_name [simp]:
  "shared_chunk_name (webpack_output d) h i = h @ ''.chunk.js''"
  by (simp add: shared_chunk_name_def webpack_output_def starts_with_def)

lemma webpack_source_map_name [simp]:
  "source_map_name (webpack_output d) f = f @ ''.map''"
  by (simp add: source_map_name_def webpack_output_def starts_with_def)

end
