(* ===== verification/Bundle.thy ===== *)
theory Bundle
  imports Shim Output "HOL-Library.List_Lexorder" "HOL-Library.Char_ord"
begin

text \<open>
  Webpack's chunking and emission, which the configuration drives but does not
  implement; modelled from the spec (section 4.5). Each entry gets one chunk of the
  modules reachable from it alone; the modules reachable from two or more entries form
  one shared chunk. A chunk's members are serialised in a canonical order (sorted by
  module id, duplicates removed), its content is hashed by the \<open>chunk_hash\<close>
  parameter, and it is emitted under the configured template together with a source
  map \<open><file>.map\<close>. Two emitted assets with the same name abort the build with
  \<open>ChunkNamingCollision\<close>.
\<close>

datatype chunk =
  EntryChunk string "string list"
| SharedChunk string "string list"

primrec chunk_members :: "chunk \<Rightarrow> string list" where
  "chunk_members (EntryChunk n ms) = ms"
| "chunk_members (SharedChunk i ms) = ms"

text \<open>The reachable module ids of each entry, as the dependency graph reports them.\<close>

type_synonym entry_modules = "(string \<times> string list) list"

definition entries_reaching :: "entry_modules \<Rightarrow> string \<Rightarrow> nat" where
  "entries_reaching es m = length (filter (\<lambda>(n, ms). m \<in> set ms) es)"

definition shared_modules :: "entry_modules \<Rightarrow> string list" where
  "shared_modules es =
     sort (remdups (filter (\<lambda>m. 2 \<le> entries_reaching es m) (concat (map snd es))))"

definition entry_chunk_modules :: "entry_modules \<Rightarrow> string list \<Rightarrow> string list" where
  "entry_chunk_modules es ms = sort (remdups (filter (\<lambda>m. entries_reaching es m < 2) ms))"

definition make_chunks :: "entry_modules \<Rightarrow> chunk list" where
  "make_chunks es =
     map (\<lambda>(n, ms). EntryChunk n (entry_chunk_modules es ms)) es
     @ (if shared_modules es = [] then [] else [SharedChunk ''0'' (shared_modules es)])"

definition serialize :: "(string \<Rightarrow> string) \<Rightarrow> string list \<Rightarrow> string" where
  "serialize content ms = concat (map content ms)"

definition chunk_file ::
  "output_config \<Rightarrow> (string \<Rightarrow> string) \<Rightarrow> (string \<Rightarrow> string) \<Rightarrow> chunk \<Rightarrow> string" where
  "chunk_file cfg chunk_hash content c =
     (case c of
        EntryChunk n ms \<Rightarrow> entry_chunk_name cfg (chunk_hash (serialize content ms)) n
      | SharedChunk i ms \<Rightarrow> shared_chunk_name cfg (chunk_hash (serialize content ms)) i)"

text \<open>A chunk's two assets: the script and its source map.\<close>

definition chunk_assets ::
  "output_config \<Rightarrow> (string \<Rightarrow> string) \<Rightarrow> (string \<Rightarrow> string) \<Rightarrow> (string \<Rightarrow> string)
     \<Rightarrow> chunk \<Rightarrow> source jsobject" where
  "chunk_assets cfg chunk_hash content source_map c =
     (let file = chunk_file cfg chunk_hash content c;
          body = serialize content (chunk_members c)
      in [(file, RawSource body), (source_map_name cfg file, RawSource (source_map body))])"

datatype build_error =
  ChunkNamingCollision string
| UnresolvedSpecifier string string
| TransformFailure string string
| WriteFailure string

fun first_duplicate :: "string list \<Rightarrow> string option" where
  "first_duplicate [] = None"
| "first_duplicate (x # xs) = (if x \<in> set xs then Some x else first_duplicate xs)"

definition emit_chunks ::
  "output_config \<Rightarrow> (string \<Rightarrow> string) \<Rightarrow> (string \<Rightarrow> string) \<Rightarrow> (string \<Rightarrow> string)
     \<Rightarrow> chunk list \<Rightarrow> build_error + source jsobject" where
  "emit_chunks cfg chunk_hash content source_map cs =
     (let assets = concat (map (chunk_assets cfg chunk_hash content source_map) cs)
      in case first_duplicate (obj_keys assets) of
           Some f \<Rightarrow> Inl (ChunkNamingCollision f)
         | None \<Rightarrow> Inr assets)"

subsection \<open>Lemmas\<close>

lemma set_shared_modules:
  "set (shared_modules es) = {m \<in> set (concat (map snd es)). 2 \<le> entries_reaching es m}"
  by (auto simp: shared_modules_def)

lemma set_entry_chunk_modules:
  "set (entry_chunk_modules es ms) = {m \<in> set ms. entries_reaching es m < 2}"
  by (auto simp: entry_chunk_modules_def)

lemma entries_reaching_pos:
  "m \<in> set (concat (map snd es)) \<Longrightarrow> 0 < entries_reaching es m"
  by (auto simp: entries_reaching_def filter_empty_conv)

text \<open>Partition: every module reachable from some entry lies in exactly
  one chunk: in the shared chunk when two or more entries reach it, otherwise in the
  chunk of the one entry that does.\<close>

lemma make_chunks_partition:
  assumes m: "m \<in> set (concat (map snd es))"
  shows "length (filter (\<lambda>c. m \<in> set (chunk_members c)) (make_chunks es)) = 1"
proof (cases "2 \<le> entries_reaching es m")
  case True
  then have "filter (\<lambda>c. m \<in> set (chunk_members c))
      (map (\<lambda>(n, ms). EntryChunk n (entry_chunk_modules es ms)) es) = []"
    by (auto simp: filter_empty_conv set_entry_chunk_modules)
  moreover have "m \<in> set (shared_modules es)"
    using m True by (simp add: set_shared_modules)
  ultimately show ?thesis by (auto simp: make_chunks_def)
next
  case False
  then have "m \<notin> set (shared_modules es)" by (simp add: set_shared_modules)
  then have "filter (\<lambda>c. m \<in> set (chunk_members c)) (make_chunks es)
      = filter (\<lambda>c. m \<in> set (chunk_members c))
          (map (\<lambda>(n, ms). EntryChunk n (entry_chunk_modules es ms)) es)"
    by (auto simp: make_chunks_def)
  also have "length \<dots> = entries_reaching es m"
    using False
    by (simp add: entries_reaching_def comp_def case_prod_unfold set_entry_chunk_modules)
  finally show ?thesis
    using False entries_reaching_pos [OF m] by simp
qed

lemma entries_reaching_cong:
  "map fst es = map fst es' \<Longrightarrow> map (set \<circ> snd) es = map (set \<circ> snd) es' \<Longrightarrow>
     entries_reaching es = entries_reaching es'"
proof (induction es arbitrary: es')
  case Nil
  then show ?case by simp
next
  case (Cons e es)
  then obtain e' es'' where "es' = e' # es''" by (cases es') auto
  with Cons show ?case
    by (auto simp: entries_reaching_def fun_eq_iff case_prod_unfold)
qed

lemma sort_remdups_cong:
  "set xs = set ys \<Longrightarrow> sort (remdups xs) = sort (remdups ys)"
  by (metis sorted_list_of_set_sort_remdups)

lemma entry_chunk_modules_cong:
  "entries_reaching E = entries_reaching E' \<Longrightarrow> set ms = set ms' \<Longrightarrow>
     entry_chunk_modules E ms = entry_chunk_modules E' ms'"
  unfolding entry_chunk_modules_def by (intro sort_remdups_cong) auto

lemma map_entry_chunks_cong:
  assumes "entries_reaching E = entries_reaching E'"
  shows "map fst xs = map fst xs' \<Longrightarrow> map (set \<circ> snd) xs = map (set \<circ> snd) xs' \<Longrightarrow>
     map (\<lambda>(n, ms). EntryChunk n (entry_chunk_modules E ms)) xs
     = map (\<lambda>(n, ms). EntryChunk n (entry_chunk_modules E' ms)) xs'"
proof (induction xs arbitrary: xs')
  case Nil
  then show ?case by simp
next
  case (Cons x xs)
  then obtain x' xs'' where xs': "xs' = x' # xs''" by (cases xs') auto
  with Cons.prems have "fst x = fst x'" and "set (snd x) = set (snd x')" by auto
  with assms have "entry_chunk_modules E (snd x) = entry_chunk_modules E' (snd x')"
    by (intro entry_chunk_modules_cong)
  with Cons xs' \<open>fst x = fst x'\<close> show ?case by (auto simp: case_prod_unfold)
qed

text \<open>Determinism: the chunks depend only on the entry names and on
  the sets of modules each entry reaches, not on the order in which the traversal
  discovered them; so unchanged sources give byte-identical chunk contents and names.\<close>

lemma make_chunks_canonical:
  assumes "map fst es = map fst es'" and "map (set \<circ> snd) es = map (set \<circ> snd) es'"
  shows "make_chunks es = make_chunks es'"
proof -
  have r: "entries_reaching es = entries_reaching es'"
    using assms by (rule entries_reaching_cong)
  have "set (concat (map snd es)) = \<Union> (set (map (set \<circ> snd) es))" by auto
  also have "\<dots> = \<Union> (set (map (set \<circ> snd) es'))" using assms(2) by simp
  also have "\<dots> = set (concat (map snd es'))" by auto
  finally have "set (concat (map snd es)) = set (concat (map snd es'))" .
  then have sh: "shared_modules es = shared_modules es'"
    unfolding shared_modules_def r by (intro sort_remdups_cong) auto
  have "map (\<lambda>(n, ms). EntryChunk n (entry_chunk_modules es ms)) es
      = map (\<lambda>(n, ms). EntryChunk n (entry_chunk_modules es' ms)) es'"
    using r assms by (rule map_entry_chunks_cong)
  with sh show ?thesis by (simp add: make_chunks_def)
qed

lemma first_duplicate_None: "first_duplicate xs = None \<longleftrightarrow> distinct xs"
  by (induction xs) auto

lemma first_duplicate_Some: "first_duplicate xs = Some x \<Longrightarrow> \<not> distinct xs"
  by (metis first_duplicate_None option.distinct(1))

lemma emit_chunks_Inr:
  "emit_chunks cfg chunk_hash content source_map cs = Inr assets \<Longrightarrow>
     assets = concat (map (chunk_assets cfg chunk_hash content source_map) cs)
     \<and> distinct (obj_keys assets)"
  by (auto simp: emit_chunks_def Let_def first_duplicate_None split: option.splits)

lemma emit_chunks_Inl:
  "emit_chunks cfg chunk_hash content source_map cs = Inl e \<Longrightarrow>
     \<exists>f. e = ChunkNamingCollision f
       \<and> \<not> distinct (obj_keys (concat (map (chunk_assets cfg chunk_hash content source_map) cs)))"
  by (auto simp: emit_chunks_def Let_def split: option.splits dest: first_duplicate_Some)

end
