(* ===== verification/Writer.thy ===== *)
theory Writer
  imports Bundle
begin

text \<open>
  The output writer: webpack writes every asset of the compilation into
  \<open>output.path\<close>, and \<open>WebpackCleanupPlugin\<close> (line 146 of
  \<open>src/web/webpack.config.js\<close>) removes what an earlier build left there. Both are
  library code; the model follows the spec (section 4.7): the previous contents are
  dropped, then the assets are written one by one in order as flat files named by
  their base name. An I/O error on a file (the \<open>fails\<close> parameter says which names
  fail) stops the writer with \<open>WriteFailure\<close>, leaving what was written so far.
  The directory is a map from file name to contents.
\<close>

fun write_files ::
  "(string \<Rightarrow> bool) \<Rightarrow> (string \<rightharpoonup> string) \<Rightarrow> source jsobject
     \<Rightarrow> (string \<rightharpoonup> string) \<times> build_error option"
where
  "write_files fails dir [] = (dir, None)"
| "write_files fails dir ((name, src) # assets) =
     (let file = path_basename name in
      if fails file then (dir, Some (WriteFailure file))
      else write_files fails (dir(file \<mapsto> source_text src)) assets)"

definition output_writer ::
  "(string \<Rightarrow> bool) \<Rightarrow> (string \<rightharpoonup> string) \<Rightarrow> source jsobject
     \<Rightarrow> (string \<rightharpoonup> string) \<times> build_error option"
where
  "output_writer fails previous assets = write_files fails Map.empty assets"

subsection \<open>Lemmas\<close>

lemma write_files_ok:
  "write_files fails dir assets = (d, None) \<longleftrightarrow>
     list_all (\<lambda>(n, _). \<not> fails (path_basename n)) assets
     \<and> d = dir ++ map_of (rev (map (\<lambda>(n, s). (path_basename n, source_text s)) assets))"
proof (induction assets arbitrary: dir)
  case Nil
  then show ?case by auto
next
  case (Cons a assets)
  obtain n s where a: "a = (n, s)" by fastforce
  show ?case
  proof (cases "fails (path_basename n)")
    case True
    then show ?thesis by (simp add: a)
  next
    case False
    have step: "write_files fails dir (a # assets)
        = write_files fails (dir(path_basename n \<mapsto> source_text s)) assets"
      using False by (simp add: a)
    have eq: "dir(path_basename n \<mapsto> source_text s)
          ++ map_of (rev (map (\<lambda>(n, s). (path_basename n, source_text s)) assets))
        = dir ++ map_of (rev (map (\<lambda>(n, s). (path_basename n, source_text s)) (a # assets)))"
      by (simp add: a fun_eq_iff map_add_def split: option.split)
    show ?thesis
      unfolding step Cons.IH eq using False by (simp add: a)
  qed
qed

lemma write_files_fail:
  "write_files fails dir assets = (d, Some e) \<Longrightarrow>
     \<exists>i < length assets. e = WriteFailure (path_basename (fst (assets ! i)))
       \<and> fails (path_basename (fst (assets ! i)))
       \<and> d = dir ++ map_of (rev (map (\<lambda>(n, s). (path_basename n, source_text s)) (take i assets)))"
proof (induction assets arbitrary: dir)
  case Nil
  then show ?case by simp
next
  case (Cons a assets)
  obtain n s where a: "a = (n, s)" by fastforce
  show ?case
  proof (cases "fails (path_basename n)")
    case True
    with Cons.prems have "d = dir" and "e = WriteFailure (path_basename n)" by (simp_all add: a)
    with True show ?thesis by (intro exI [of _ 0]) (simp add: a)
  next
    case False
    with Cons.prems have "write_files fails (dir(path_basename n \<mapsto> source_text s)) assets = (d, Some e)"
      by (simp add: a)
    from Cons.IH [OF this] obtain i where i: "i < length assets"
      and e: "e = WriteFailure (path_basename (fst (assets ! i)))"
      and f: "fails (path_basename (fst (assets ! i)))"
      and d: "d = dir(path_basename n \<mapsto> source_text s)
               ++ map_of (rev (map (\<lambda>(n, s). (path_basename n, source_text s)) (take i assets)))"
      by blast
    have "d = dir ++ map_of (rev (map (\<lambda>(n, s). (path_basename n, source_text s)) (take (Suc i) (a # assets))))"
      by (simp add: d a map_add_def fun_eq_iff split: option.split)
    with i e f show ?thesis by (intro exI [of _ "Suc i"]) (simp add: a)
  qed
qed

text \<open>No stale output: after a successful write the directory holds
  exactly the base names of the assets, whatever an earlier build left there, and
  each file holds its asset's source when base names are distinct.\<close>

lemma output_writer_success:
  assumes "output_writer fails previous assets = (d, None)"
  shows "dom d = path_basename ` set (obj_keys assets)
    \<and> (distinct (map path_basename (obj_keys assets)) \<longrightarrow>
         list_all (\<lambda>(n, s). d (path_basename n) = Some (source_text s)) assets)"
proof -
  from assms have d: "d = map_of (rev (map (\<lambda>(n, s). (path_basename n, source_text s)) assets))"
    by (simp add: output_writer_def write_files_ok)
  have "dom d = path_basename ` set (obj_keys assets)"
    by (force simp: d dom_map_of_conv_image_fst)
  moreover have "list_all (\<lambda>(n, s). d (path_basename n) = Some (source_text s)) assets"
    if dist: "distinct (map path_basename (obj_keys assets))"
  proof -
    have "distinct (map fst (rev (map (\<lambda>(n, s). (path_basename n, source_text s)) assets)))"
      using dist by (simp add: rev_map [symmetric] comp_def case_prod_unfold)
    then show ?thesis
      by (auto simp: d list_all_iff)
  qed
  ultimately show ?thesis by blast
qed

text \<open>Non-atomic failure: a write error on one asset stops the writer
  with \<open>WriteFailure\<close> naming it; the previous output is already gone and exactly
  the assets before it have been written, so a partial directory is left behind
  (the spec's section 5 asks that no partial set is ever published).\<close>

lemma output_writer_partial:
  assumes "output_writer fails previous assets = (d, Some e)"
  shows "\<exists>i < length assets. e = WriteFailure (path_basename (fst (assets ! i)))
           \<and> dom d = path_basename ` set (obj_keys (take i assets))"
proof -
  from assms have "write_files fails Map.empty assets = (d, Some e)"
    by (simp add: output_writer_def)
  from write_files_fail [OF this] obtain i where "i < length assets"
    and "e = WriteFailure (path_basename (fst (assets ! i)))"
    and d: "d = map_of (rev (map (\<lambda>(n, s). (path_basename n, source_text s)) (take i assets)))"
    by auto
  moreover have "dom d = path_basename ` set (obj_keys (take i assets))"
    by (force simp: d dom_map_of_conv_image_fst)
  ultimately show ?thesis by blast
qed


end
