(* ===== verification/Resolve.thy ===== *)
theory Resolve
  imports Prelude
begin

text \<open>
  The \<open>resolve\<close> section of \<open>src/web/webpack.config.js\<close> (lines 155--188) and the
  \<open>ProvidePlugin\<close> of lines 147--151. The alias table is configuration; its meaning is
  webpack's alias plugin (enhanced-resolve's \<open>AliasPlugin\<close>), modelled from the spec
  (section 4.1) and from that plugin's rule: the aliases are tried in declaration order,
  an alias \<open>name\<close> applies to a request equal to \<open>name\<close> or starting with
  \<open>name/\<close>, unless the request already starts with the alias's target, and the first
  that applies replaces the prefix. The spec's construction-time validation (section 9)
  is \<open>alias_table_valid\<close>: no alias name may apply to another.
\<close>

text \<open>Line 156: the extensions tried after the bare path.\<close>

definition resolve_extensions :: "string list" where
  "resolve_extensions = [''.js'', ''.coffee'']"

text \<open>Line 157: the directories searched for a non-relative request.\<close>

definition resolve_modules :: "string list" where
  "resolve_modules = [''.'', ''node_modules'']"

text \<open>Lines 158--187, in declaration order; no key is an array index, so this is also
  the order of \<open>Object.keys\<close>.\<close>

definition alias_table :: "(string \<times> string) list" where
  "alias_table =
     [(''backbone'', ''vendor/backbone''),
      (''backform'', ''vendor/backform''),
      (''backgrid'', ''vendor/backgrid''),
      (''base64'', ''vendor/base64''),
      (''bootstrap-alert'', ''vendor/bootstrap-alert''),
      (''bootstrap-collapse'', ''vendor/bootstrap-collapse''),
      (''bootstrap-dropdown'', ''vendor/bootstrap-dropdown''),
      (''bootstrap-modal'', ''vendor/bootstrap-modal''),
      (''bootstrap-popover'', ''vendor/bootstrap-popover''),
      (''bootstrap-tab'', ''vendor/bootstrap-tab''),
      (''bootstrap-toggle'', ''vendor/bootstrap-toggle''),
      (''bootstrap-tooltip'', ''vendor/bootstrap-tooltip''),
      (''bootstrap-transition'', ''vendor/bootstrap-transition''),
      (''html5sortable'', ''vendor/html5sortable-0-6-1''),
      (''jquery'', ''vendor/jquery-2-1-0''),
      (''jquery.mousewheel'', ''vendor/jquery.mousewheel''),
      (''jquery.validate'', ''vendor/jquery.validate''),
      (''mass-upload'', ''vendor/mass-upload''),
      (''md5'', ''vendor/md5''),
      (''select2'', ''vendor/select2''),
      (''sha1'', ''vendor/git-sha1''),
      (''spectrum'', ''vendor/spectrum''),
      (''tinycolor'', ''vendor/tinycolor''),
      (''typeahead'', ''vendor/typeahead.jquery''),
      (''underscore'', ''vendor/underscore''),
      (''oboe'', ''vendor/oboe-browser-2-1-3''),
      (''MassUpload'', ''vendor/mass-upload'')]"

text \<open>Lines 147--151: the free variables \<open>ProvidePlugin\<close> binds, each to the export of
  a module request.\<close>

definition provide_bindings :: "(string \<times> string) list" where
  "provide_bindings = [(''$'', ''jquery''), (''jQuery'', ''jquery''), (''window.jQuery'', ''jquery'')]"

text \<open>The alias plugin's test: the request is the alias name or lies below it.\<close>

definition alias_matches :: "string \<Rightarrow> string \<Rightarrow> bool" where
  "alias_matches name request \<longleftrightarrow> request = name \<or> starts_with request (name @ ''/'')"

text \<open>The alias plugin: the first alias that applies, and whose target is not already a
  prefix of the request, replaces the prefix; with none, the request is unchanged.\<close>

fun resolve_alias :: "(string \<times> string) list \<Rightarrow> string \<Rightarrow> string" where
  "resolve_alias [] request = request"
| "resolve_alias ((name, target) # tbl) request =
     (if alias_matches name request \<and> \<not> alias_matches target request
      then target @ drop (length name) request
      else resolve_alias tbl request)"

text \<open>The spec's validation of an alias table (section 9): no two aliases overlap, so
  no reordering of the table can change a resolution.\<close>

fun alias_table_valid :: "(string \<times> string) list \<Rightarrow> bool" where
  "alias_table_valid [] = True"
| "alias_table_valid ((name, target) # tbl) =
     (list_all (\<lambda>(name', _). \<not> alias_matches name name' \<and> \<not> alias_matches name' name) tbl
      \<and> alias_table_valid tbl)"

text \<open>A path with its \<open>.\<close> and empty segments removed and each \<open>..\<close> cancelling
  the segment before it, as the resolver's path join does.\<close>

definition normalize_path :: "string \<Rightarrow> string" where
  "normalize_path p =
     join_on (CHR ''/'')
       (fold (\<lambda>seg acc. if seg = ''.'' \<or> seg = [] then acc
                         else if seg = ''..'' then butlast acc else acc @ [seg])
          (split_on (CHR ''/'') p) [])"

text \<open>Module lookup after aliasing: a relative request is looked up in the importing
  module's directory, any other in each of \<open>resolve.modules\<close>; each candidate is
  tried bare and then with each extension; the first existing file wins, and
  \<open>None\<close> is the spec's \<open>UnresolvedSpecifier\<close>. File existence is the parameter
  \<open>exists\<close>; paths are relative to the \<open>context\<close> directory (line 104).\<close>

definition resolve_candidates :: "string \<Rightarrow> string \<Rightarrow> string list" where
  "resolve_candidates context request =
     (let dirs = (if starts_with request ''./'' \<or> starts_with request ''../'' then [context]
                  else resolve_modules)
      in concat (map (\<lambda>d. map (\<lambda>e. normalize_path (d @ ''/'' @ request) @ e)
                                ([] # resolve_extensions)) dirs))"

definition resolve_module :: "(string \<Rightarrow> bool) \<Rightarrow> string \<Rightarrow> string \<Rightarrow> string option" where
  "resolve_module exists context request =
     find exists (resolve_candidates context (resolve_alias alias_table request))"

subsection \<open>Lemmas\<close>

lemma alias_matches_iff:
  "alias_matches n r \<longleftrightarrow> r = n \<or> (\<exists>x. r = n @ CHR ''/'' # x)"
  by (simp add: alias_matches_def starts_with_iff)

lemma alias_matches_refl [simp]: "alias_matches n n"
  by (simp add: alias_matches_def)

text \<open>Two aliases that apply to the same request overlap: one applies to the other.\<close>

lemma alias_matches_overlap:
  assumes "alias_matches a r" and "alias_matches b r"
  shows "alias_matches a b \<or> alias_matches b a"
proof -
  have sep: "alias_matches a b \<or> alias_matches b a"
    if "a @ CHR ''/'' # x = b @ CHR ''/'' # y" for x y
  proof -
    from that obtain us where
      "(a = b @ us \<and> us @ CHR ''/'' # x = CHR ''/'' # y) \<or> (a @ us = b \<and> CHR ''/'' # x = us @ CHR ''/'' # y)"
      by (auto simp: append_eq_append_conv2)
    then show ?thesis
      by (cases us) (auto simp: alias_matches_iff)
  qed
  from assms show ?thesis
    unfolding alias_matches_iff by (elim disjE exE) (auto dest: sep simp: alias_matches_iff)
qed

lemma resolve_alias_find:
  "resolve_alias tbl r =
     (case find (\<lambda>(n, t). alias_matches n r \<and> \<not> alias_matches t r) tbl of
        Some (n, t) \<Rightarrow> t @ drop (length n) r
      | None \<Rightarrow> r)"
  by (induction tbl r rule: resolve_alias.induct) auto

lemma alias_table_valid_unique:
  assumes "alias_table_valid tbl" and "(n, t) \<in> set tbl" and "(n', t') \<in> set tbl"
    and "alias_matches n r" and "alias_matches n' r"
  shows "(n, t) = (n', t')"
  using assms
proof (induction tbl)
  case Nil
  then show ?case by simp
next
  case (Cons p tbl)
  obtain m u where p: "p = (m, u)" by (cases p)
  have head: "\<not> alias_matches m k \<and> \<not> alias_matches k m" if "(k, v) \<in> set tbl" for k v
    using Cons.prems(1) that by (auto simp: p list_all_iff)
  have "\<not> (alias_matches m k \<or> alias_matches k m)"
    if "(k, v) \<in> set tbl" and "alias_matches m r" and "alias_matches k r" for k v
    using head [OF that(1)] by blast
  with alias_matches_overlap Cons show ?case
    by (auto simp: p) (metis head alias_matches_overlap)+
qed

lemma resolve_alias_reorder:
  assumes v: "alias_table_valid tbl" and s: "set tbl' = set tbl"
  shows "resolve_alias tbl' r = resolve_alias tbl r"
proof -
  let ?P = "\<lambda>(n, t). alias_matches n r \<and> \<not> alias_matches t r"
  have "\<forall>x \<in> set tbl. \<forall>y \<in> set tbl. ?P x \<longrightarrow> ?P y \<longrightarrow> x = y"
    using alias_table_valid_unique [OF v] by fast
  then have "find ?P tbl' = find ?P tbl" using s by (rule find_unique_cong)
  then show ?thesis by (simp only: resolve_alias_find)
qed

lemma alias_table_valid_config: "alias_table_valid alias_table"
  by code_simp

lemma alias_table_shape:
  "list_all (\<lambda>(n, t). CHR ''/'' \<notin> set n \<and> n \<noteq> ''vendor'' \<and> starts_with t ''vendor/'') alias_table"
  by (simp add: alias_table_def starts_with_def)

lemma vendor_not_matched:
  assumes "CHR ''/'' \<notin> set n" and "n \<noteq> ''vendor''"
  shows "\<not> alias_matches n (''vendor/'' @ z)"
proof
  assume "alias_matches n (''vendor/'' @ z)"
  then consider "''vendor/'' @ z = n" | x where "''vendor'' @ CHR ''/'' # z = n @ CHR ''/'' # x"
    by (auto simp: alias_matches_iff)
  then show False
  proof cases
    case 1
    with assms(1) show False by auto
  next
    case 2
    have "''vendor'' = n"
      using sep_prefix_inj [of "''vendor''" "\<lambda>c. c \<noteq> CHR ''/''" n, OF _ _ _ 2] assms(1) by auto
    with assms(2) show False by simp
  qed
qed

lemma resolve_alias_vendor: "resolve_alias alias_table (''vendor/'' @ z) = ''vendor/'' @ z"
proof -
  have "find (\<lambda>(n, t). alias_matches n (''vendor/'' @ z) \<and> \<not> alias_matches t (''vendor/'' @ z))
          alias_table = None"
    using alias_table_shape vendor_not_matched by (fastforce simp: find_None_iff list_all_iff)
  then show ?thesis by (simp add: resolve_alias_find)
qed

lemma target_vendor: "(n, t) \<in> set alias_table \<Longrightarrow> \<exists>z. t = ''vendor/'' @ z"
  using alias_table_shape by (auto simp: list_all_iff starts_with_iff)

subsection \<open>Properties of the configured resolution\<close>

text \<open>Claim C11 (order independence): the configured alias table passes the spec's
  validation, so resolution does not depend on the order of its entries: any table
  with the same entries resolves every request the same way.\<close>

theorem alias_table_order_independent:
  assumes "set tbl = set alias_table"
  shows "resolve_alias tbl r = resolve_alias alias_table r"
  using alias_table_valid_config assms by (rule resolve_alias_reorder)

text \<open>Claim C19 (alias lookup): a request naming an alias, or a path below it,
  resolves to the alias's target followed by the rest of the path.\<close>

theorem alias_table_lookup:
  assumes nt: "(n, t) \<in> set alias_table" and r: "r = n \<or> (\<exists>x. r = n @ CHR ''/'' # x)"
  shows "resolve_alias alias_table r = t @ drop (length n) r"
proof -
  let ?P = "\<lambda>(n, t). alias_matches n r \<and> \<not> alias_matches t r"
  obtain z where t: "t = ''vendor/'' @ z" using target_vendor [OF nt] by blast
  have n: "CHR ''/'' \<notin> set n" "n \<noteq> ''vendor''"
    using alias_table_shape nt by (auto simp: list_all_iff)
  have "\<not> alias_matches t r"
  proof
    assume "alias_matches t r"
    then obtain y where "r = ''vendor/'' @ y" by (auto simp: alias_matches_iff t)
    with r n vendor_not_matched [OF n] show False by (auto simp: alias_matches_iff)
  qed
  then have "?P (n, t)" using r by (auto simp: alias_matches_iff)
  moreover have "\<forall>y \<in> set alias_table. ?P y \<longrightarrow> y = (n, t)"
    using alias_table_valid_unique [OF alias_table_valid_config _ nt] \<open>?P (n, t)\<close> by fast
  ultimately have "find ?P alias_table = Some (n, t)" using nt by (intro find_unique_Some)
  then show ?thesis by (simp add: resolve_alias_find)
qed

text \<open>Idempotence: every target of the table lies under \<open>vendor/\<close>,
  which no alias applies to, so resolving a resolved request changes nothing.\<close>

lemma resolve_alias_idempotent:
  "resolve_alias alias_table (resolve_alias alias_table r) = resolve_alias alias_table r"
proof (cases "find (\<lambda>(n, t). alias_matches n r \<and> \<not> alias_matches t r) alias_table")
  case None
  then show ?thesis by (simp add: resolve_alias_find)
next
  case (Some p)
  obtain n t where p: "p = (n, t)" by (cases p)
  with Some have "(n, t) \<in> set alias_table" by (auto dest: find_SomeD)
  then obtain z where "t = ''vendor/'' @ z" using target_vendor by blast
  with Some p have "resolve_alias alias_table r = ''vendor/'' @ (z @ drop (length n) r)"
    by (simp add: resolve_alias_find)
  then show ?thesis by (simp only: resolve_alias_vendor)
qed

lemma jquery_candidates:
  "resolve_candidates c (resolve_alias alias_table ''jquery'') =
     [''vendor/jquery-2-1-0'', ''vendor/jquery-2-1-0.js'', ''vendor/jquery-2-1-0.coffee'',
      ''node_modules/vendor/jquery-2-1-0'', ''node_modules/vendor/jquery-2-1-0.js'',
      ''node_modules/vendor/jquery-2-1-0.coffee'']"
  by code_simp


subsection \<open>Witnesses\<close>

theorem alias_table_order_independent_witness:
  "resolve_alias (rev alias_table) ''jquery/ui'' = ''vendor/jquery-2-1-0/ui''"
proof -
  have "resolve_alias (rev alias_table) ''jquery/ui'' = resolve_alias alias_table ''jquery/ui''"
    by (rule alias_table_order_independent) simp
  then show ?thesis by (simp add: alias_table_def alias_matches_def starts_with_def)
qed

theorem alias_table_lookup_witness:
  "resolve_alias alias_table ''sha1/lib'' = ''vendor/git-sha1/lib''"
proof -
  have "resolve_alias alias_table ''sha1/lib'' = ''vendor/git-sha1'' @ drop (length ''sha1'') ''sha1/lib''"
    by (rule alias_table_lookup) (simp_all add: alias_table_def)
  then show ?thesis by simp
qed


end
