(* ===== verification/Graph.thy ===== *)
theory Graph
  imports Resolve Bundle
begin

text \<open>
  Webpack's dependency graph builder, library code driven by the entries and the
  \<open>resolve\<close> section of \<open>src/web/webpack.config.js\<close>; modelled from the spec
  (section 4.3). The source tree is an association list from module path to the import
  specifiers of that module, in source order; a path exists when it is a key. From a
  worklist of module paths, a module not yet visited is marked visited and the
  resolutions of its specifiers (\<open>Resolve.resolve_module\<close>, relative to the module's
  directory) are pushed in front of the worklist; a specifier that does not resolve
  stops the traversal with \<open>UnresolvedSpecifier\<close>. Paths on the worklist come from
  the resolver, which only returns existing paths; an unknown path is skipped. The
  visited list guards against cycles; termination is by the number of unvisited modules, then the worklist length.
\<close>

type_synonym source_tree = "(string \<times> string list) list"

definition module_exists :: "source_tree \<Rightarrow> string \<Rightarrow> bool" where
  "module_exists fs p \<longleftrightarrow> p \<in> set (map fst fs)"

definition module_dir :: "string \<Rightarrow> string" where
  "module_dir p = join_on (CHR ''/'') (butlast (split_on (CHR ''/'') p))"

text \<open>The resolutions of a module's specifiers, in order, or the first that fails.\<close>

fun resolve_all :: "source_tree \<Rightarrow> string \<Rightarrow> string list \<Rightarrow> build_error + string list" where
  "resolve_all fs m [] = Inr []"
| "resolve_all fs m (s # ss) =
     (case resolve_module (module_exists fs) (module_dir m) s of
        None \<Rightarrow> Inl (UnresolvedSpecifier s m)
      | Some p \<Rightarrow> (case resolve_all fs m ss of Inl e \<Rightarrow> Inl e | Inr ps \<Rightarrow> Inr (p # ps)))"

function traverse :: "source_tree \<Rightarrow> string list \<Rightarrow> string list \<Rightarrow> build_error + string list" where
  "traverse fs visited [] = Inr visited"
| "traverse fs visited (m # ws) =
     (if m \<in> set visited then traverse fs visited ws
      else case map_of fs m of
        None \<Rightarrow> traverse fs visited ws
      | Some specs \<Rightarrow>
          (case resolve_all fs m specs of
             Inl e \<Rightarrow> Inl e
           | Inr ps \<Rightarrow> traverse fs (visited @ [m]) (ps @ ws)))"
  by pat_completeness auto
termination
proof (relation "measures [\<lambda>(fs, visited, ws). card (set (map fst fs) - set visited),
                           \<lambda>(fs, visited, ws). length ws]", goal_cases)
  case 1
  then show ?case by simp
next
  case (2 fs visited m ws)
  then show ?case by simp
next
  case (3 fs visited m ws)
  then show ?case by simp
next
  case (4 fs visited m ws specs ps)
  then have "m \<in> set (map fst fs)" by (force dest: map_of_SomeD)
  with 4 have "set (map fst fs) - set (visited @ [m]) \<subset> set (map fst fs) - set visited" by auto
  then show ?case by (simp add: psubset_card_mono)
qed

text \<open>The modules reachable from an entry request, resolved like a module request
  from the context directory.\<close>

definition entry_graph :: "source_tree \<Rightarrow> string \<Rightarrow> build_error + string list" where
  "entry_graph fs request =
     (case resolve_module (module_exists fs) ''.'' request of
        None \<Rightarrow> Inl (UnresolvedSpecifier request ''.'')
      | Some p \<Rightarrow> traverse fs [] [p])"

text \<open>The graph of every entry of a registry, in registry order; the first entry
  whose graph fails aborts.\<close>

fun compile_entries :: "source_tree \<Rightarrow> (string \<times> string) list \<Rightarrow> build_error + entry_modules" where
  "compile_entries fs [] = Inr []"
| "compile_entries fs ((name, request) # es) =
     (case entry_graph fs request of
        Inl e \<Rightarrow> Inl e
      | Inr ms \<Rightarrow> (case compile_entries fs es of Inl e \<Rightarrow> Inl e | Inr rest \<Rightarrow> Inr ((name, ms) # rest)))"

text \<open>The edges of the module graph: \<open>m\<close> imports \<open>p\<close> when one of the specifiers
  of \<open>m\<close> resolves to \<open>p\<close>.\<close>

definition depends_on :: "source_tree \<Rightarrow> string \<Rightarrow> string \<Rightarrow> bool" where
  "depends_on fs m p \<longleftrightarrow>
     (case map_of fs m of
        None \<Rightarrow> False
      | Some specs \<Rightarrow> list_ex (\<lambda>s. resolve_module (module_exists fs) (module_dir m) s = Some p) specs)"

text \<open>The traversal's invariant: every import of a visited module is visited or
  still on the worklist.\<close>

definition graph_closed :: "source_tree \<Rightarrow> string list \<Rightarrow> string list \<Rightarrow> bool" where
  "graph_closed fs visited ws \<longleftrightarrow>
     (\<forall>m \<in> set visited. \<forall>p. depends_on fs m p \<longrightarrow> p \<in> set visited \<or> p \<in> set ws)"

subsection \<open>Lemmas\<close>

lemma resolve_module_exists: "resolve_module ex c r = Some p \<Longrightarrow> ex p"
  by (auto simp: resolve_module_def dest: find_SomeD)

lemma depends_on_exists: "depends_on fs m p \<Longrightarrow> module_exists fs p"
  by (auto simp: depends_on_def list_ex_iff resolve_module_exists split: option.splits)

lemma resolve_all_Inr:
  "resolve_all fs m specs = Inr ps \<Longrightarrow>
     set ps = {p. \<exists>s \<in> set specs. resolve_module (module_exists fs) (module_dir m) s = Some p}"
  by (induction fs m specs arbitrary: ps rule: resolve_all.induct)
     (auto split: option.splits sum.splits)

lemma resolve_all_Inl:
  "resolve_all fs m specs = Inl e \<Longrightarrow>
     \<exists>s \<in> set specs. e = UnresolvedSpecifier s m
       \<and> resolve_module (module_exists fs) (module_dir m) s = None"
  by (induction fs m specs rule: resolve_all.induct) (auto split: option.splits sum.splits)

lemma depends_on_iff_resolved:
  "map_of fs m = Some specs \<Longrightarrow> resolve_all fs m specs = Inr ps \<Longrightarrow> depends_on fs m p \<longleftrightarrow> p \<in> set ps"
  by (auto simp: depends_on_def list_ex_iff resolve_all_Inr)

lemma traverse_sound:
  "traverse fs visited ws = Inr res \<Longrightarrow>
     set visited \<subseteq> set res \<and> (distinct visited \<longrightarrow> distinct res)
     \<and> set res \<subseteq> set visited \<union> {p. \<exists>w \<in> set ws. (depends_on fs)\<^sup>*\<^sup>* w p}"
proof (induction fs visited ws arbitrary: res rule: traverse.induct)
  case (1 fs visited)
  then show ?case by simp
next
  case (2 fs visited m ws)
  show ?case
  proof (cases "m \<in> set visited")
    case True
    with "2.IH"(1) [OF True] "2.prems" show ?thesis by auto
  next
    case False
    show ?thesis
    proof (cases "map_of fs m")
      case None
      with "2.IH"(2) [OF False None] "2.prems" False show ?thesis by auto
    next
      case (Some specs)
      then obtain ps where ps: "resolve_all fs m specs = Inr ps"
        using "2.prems" False by (auto split: sum.splits)
      with "2.prems" False Some have t: "traverse fs (visited @ [m]) (ps @ ws) = Inr res" by simp
      note IH = "2.IH"(3) [OF False Some ps t]
      let ?R = "\<lambda>ws. {p. \<exists>w \<in> set ws. (depends_on fs)\<^sup>*\<^sup>* w p}"
      have r1: "set (visited @ [m]) \<subseteq> set res"
        and r2: "distinct (visited @ [m]) \<longrightarrow> distinct res"
        and r3: "set res \<subseteq> set (visited @ [m]) \<union> ?R (ps @ ws)"
        using IH by blast+
      have "(depends_on fs)\<^sup>*\<^sup>* m p" if "p \<in> set ps" for p
        using depends_on_iff_resolved [OF Some ps] that by auto
      then have sub: "?R (ps @ ws) \<subseteq> ?R (m # ws)"
        by (auto intro: rtranclp_trans)
      have mR: "m \<in> ?R (m # ws)" by auto
      show ?thesis
      proof (intro conjI impI)
        show "set visited \<subseteq> set res" using r1 by auto
      next
        assume "distinct visited"
        with r2 False show "distinct res" by simp
      next
        show "set res \<subseteq> set visited \<union> ?R (m # ws)" using r3 sub mR by auto
      qed
    qed
  qed
qed

lemma traverse_complete:
  "traverse fs visited ws = Inr res \<Longrightarrow> graph_closed fs visited ws \<Longrightarrow>
     graph_closed fs res [] \<and> (\<forall>w \<in> set ws. module_exists fs w \<longrightarrow> w \<in> set res)"
proof (induction fs visited ws arbitrary: res rule: traverse.induct)
  case (1 fs visited)
  then show ?case by simp
next
  case (2 fs visited m ws)
  show ?case
  proof (cases "m \<in> set visited")
    case True
    with "2.prems" have t: "traverse fs visited ws = Inr res" and "graph_closed fs visited ws"
      by (auto simp: graph_closed_def)
    with "2.IH"(1) [OF True] have "graph_closed fs res [] \<and> (\<forall>w \<in> set ws. module_exists fs w \<longrightarrow> w \<in> set res)"
      by blast
    moreover have "m \<in> set res" using traverse_sound [OF t] True by blast
    ultimately show ?thesis by auto
  next
    case False
    show ?thesis
    proof (cases "map_of fs m")
      case None
      then have "\<not> module_exists fs m" by (simp add: module_exists_def map_of_eq_None_iff)
      with "2.prems" False None have "traverse fs visited ws = Inr res" and "graph_closed fs visited ws"
        by (auto simp: graph_closed_def dest: depends_on_exists)
      with "2.IH"(2) [OF False None] \<open>\<not> module_exists fs m\<close> show ?thesis by auto
    next
      case (Some specs)
      then obtain ps where ps: "resolve_all fs m specs = Inr ps"
        using "2.prems" False by (auto split: sum.splits)
      with "2.prems" False Some have t: "traverse fs (visited @ [m]) (ps @ ws) = Inr res" by simp
      have "graph_closed fs (visited @ [m]) (ps @ ws)"
        using "2.prems"(2) depends_on_iff_resolved [OF Some ps] by (auto simp: graph_closed_def)
      note IH = "2.IH"(3) [OF False Some ps t this]
      have "m \<in> set res" using traverse_sound [OF t] by auto
      with IH show ?thesis by auto
    qed
  qed
qed

lemma traverse_Inl:
  "traverse fs visited ws = Inl e \<Longrightarrow>
     \<exists>s m specs. e = UnresolvedSpecifier s m \<and> map_of fs m = Some specs \<and> s \<in> set specs
       \<and> resolve_module (module_exists fs) (module_dir m) s = None
       \<and> (\<exists>w \<in> set ws. (depends_on fs)\<^sup>*\<^sup>* w m)"
proof (induction fs visited ws rule: traverse.induct)
  case (1 fs visited)
  then show ?case by simp
next
  case (2 fs visited m ws)
  show ?case
  proof (cases "m \<in> set visited")
    case True
    with "2.IH"(1) [OF True] "2.prems" show ?thesis by auto
  next
    case False
    show ?thesis
    proof (cases "map_of fs m")
      case None
      with "2.IH"(2) [OF False None] "2.prems" False show ?thesis by auto
    next
      case (Some specs)
      show ?thesis
      proof (cases "resolve_all fs m specs")
        case (Inl e')
        with "2.prems" False Some have "e = e'" by simp
        with resolve_all_Inl [OF Inl] Some show ?thesis by auto
      next
        case (Inr ps)
        with "2.prems" False Some have t: "traverse fs (visited @ [m]) (ps @ ws) = Inl e" by simp
        from "2.IH"(3) [OF False Some Inr t] obtain s m' specs' where
          r: "e = UnresolvedSpecifier s m'" "map_of fs m' = Some specs'" "s \<in> set specs'"
             "resolve_module (module_exists fs) (module_dir m') s = None"
          and w: "\<exists>w \<in> set (ps @ ws). (depends_on fs)\<^sup>*\<^sup>* w m'" by blast
        have "(depends_on fs)\<^sup>*\<^sup>* m p" if "p \<in> set ps" for p
          using depends_on_iff_resolved [OF Some Inr] that by auto
        with w have "\<exists>w \<in> set (m # ws). (depends_on fs)\<^sup>*\<^sup>* w m'"
          by (auto intro: rtranclp_trans)
        with r show ?thesis by blast
      qed
    qed
  qed
qed

lemma compile_entries_Inr:
  "compile_entries fs E = Inr es \<Longrightarrow>
     map fst es = map fst E
     \<and> (\<forall>(n, r) \<in> set E. \<exists>ms. (n, ms) \<in> set es \<and> entry_graph fs r = Inr ms)"
  by (induction fs E arbitrary: es rule: compile_entries.induct) (fastforce split: sum.splits)+

lemma compile_entries_Inl:
  "compile_entries fs E = Inl e \<Longrightarrow> \<exists>(n, r) \<in> set E. entry_graph fs r = Inl e"
  by (induction fs E rule: compile_entries.induct) (auto split: sum.splits)

subsection \<open>Properties of the traversal\<close>

text \<open>Claim C5 (graph builder correctness): a traversal from an existing module
  terminates (the function is total) and returns every module reachable through
  imports, each exactly once.\<close>

theorem traverse_reachable:
  assumes t: "traverse fs [] [e] = Inr res" and e: "module_exists fs e"
  shows "distinct res \<and> set res = {p. (depends_on fs)\<^sup>*\<^sup>* e p}"
proof -
  have s: "set res \<subseteq> {p. (depends_on fs)\<^sup>*\<^sup>* e p}" and d: "distinct res"
    using traverse_sound [OF t] by auto
  have "graph_closed fs res []" and er: "e \<in> set res"
    using traverse_complete [OF t] e by (auto simp: graph_closed_def)
  have "p \<in> set res" if "(depends_on fs)\<^sup>*\<^sup>* e p" for p
    using that
  proof (induction rule: rtranclp_induct)
    case base
    then show ?case by (rule er)
  next
    case (step q p)
    with \<open>graph_closed fs res []\<close> show ?case by (auto simp: graph_closed_def)
  qed
  with s d show ?thesis by blast
qed

text \<open>Claim C21 (unresolved specifiers): a failed graph build names a specifier that
  does not resolve and the module that imports it, which is reachable from the entry;
  or the entry request itself does not resolve.\<close>

theorem entry_graph_unresolved:
  assumes "entry_graph fs r = Inl e"
  shows "\<exists>s m. e = UnresolvedSpecifier s m
    \<and> ((s = r \<and> m = ''.'' \<and> resolve_module (module_exists fs) ''.'' r = None)
       \<or> (\<exists>p specs. resolve_module (module_exists fs) ''.'' r = Some p \<and> (depends_on fs)\<^sup>*\<^sup>* p m
            \<and> map_of fs m = Some specs \<and> s \<in> set specs
            \<and> resolve_module (module_exists fs) (module_dir m) s = None))"
proof (cases "resolve_module (module_exists fs) ''.'' r")
  case None
  with assms show ?thesis by (simp add: entry_graph_def)
next
  case (Some p)
  with assms have "traverse fs [] [p] = Inl e" by (simp add: entry_graph_def)
  from traverse_Inl [OF this] Some show ?thesis by auto
qed

subsection \<open>Witnesses\<close>

theorem traverse_reachable_witness:
  "{p. (depends_on [(''a.js'', [''./b'']), (''b.js'', [''./a''])])\<^sup>*\<^sup>* ''a.js'' p} = {''a.js'', ''b.js''}"
proof -
  have t: "traverse [(''a.js'', [''./b'']), (''b.js'', [''./a''])] [] [''a.js''] = Inr [''a.js'', ''b.js'']"
    by code_simp
  have e: "module_exists [(''a.js'', [''./b'']), (''b.js'', [''./a''])] ''a.js''"
    by (simp add: module_exists_def)
  from traverse_reachable [OF t e] show ?thesis by auto
qed

theorem entry_graph_unresolved_witness:
  "resolve_module (module_exists [(''a.js'', [''jquery''])]) (module_dir ''a.js'') ''jquery'' = None"
proof -
  have "entry_graph [(''a.js'', [''jquery''])] ''a'' = Inl (UnresolvedSpecifier ''jquery'' ''a.js'')"
    by code_simp
  from entry_graph_unresolved [OF this] show ?thesis by auto
qed

end
