(* ===== verification/Loaders.thy ===== *)
theory Loaders
  imports Bundle
begin

text \<open>
  The transform pipeline of \<open>src/web/webpack.config.js\<close>: the options object
  \<open>UglifyESOptions\<close> (lines 97--101) and the rules of \<open>module.loaders\<close>
  (lines 119--143). A rule applies to a module whose path matches its \<open>test\<close>; the
  patterns \<open>/\.coffee$/\<close> and \<open>/\.js$/\<close> have no flags, so \<open>$\<close> is the end of
  the path and a match is a suffix test. Webpack (library code, modelled from the spec,
  section 4.4) concatenates the \<open>use\<close> lists of the matching rules and runs the
  loaders from last to first, each on the previous one's output. The loaders
  themselves (the CoffeeScript compiler, UglifyES) are the parameter \<open>run\<close>, which
  returns the output or an error message; an error is a \<open>TransformFailure\<close> of the
  module and stops its pipeline.
\<close>

text \<open>Lines 97--101.\<close>

record uglify_options =
  uglify_sourceMap :: bool
  uglify_compress :: bool
  uglify_mangle :: bool

definition UglifyESOptions :: uglify_options where
  "UglifyESOptions = \<lparr>uglify_sourceMap = True, uglify_compress = False, uglify_mangle = True\<rparr>"

text \<open>A loader of a \<open>use\<close> list: its request and its options object.\<close>

datatype loader_options = UglifyOptions uglify_options | CoffeeOptions bool

record loader =
  loader_name :: string
  loader_opts :: loader_options

record loader_rule =
  rule_test :: string
  rule_use :: "loader list"

text \<open>Lines 124--127 and 137--140: the minifier; lines 128--131: the CoffeeScript
  compiler with \<open>{ sourceMap: true }\<close>.\<close>

definition uglify_loader :: loader where
  "uglify_loader = \<lparr>loader_name = ''../node/uglify-es-loader'', loader_opts = UglifyOptions UglifyESOptions\<rparr>"

definition coffee_loader :: loader where
  "coffee_loader = \<lparr>loader_name = ''coffee-loader'', loader_opts = CoffeeOptions True\<rparr>"

text \<open>Lines 120--143: the two rules, in order; \<open>rule_test\<close> is the suffix the
  pattern anchors at the end.\<close>

definition module_loaders :: "loader_rule list" where
  "module_loaders =
     [\<lparr>rule_test = ''.coffee'', rule_use = [uglify_loader, coffee_loader]\<rparr>,
      \<lparr>rule_test = ''.js'', rule_use = [uglify_loader]\<rparr>]"

definition rule_matches :: "loader_rule \<Rightarrow> string \<Rightarrow> bool" where
  "rule_matches r resource \<longleftrightarrow> ends_with resource (rule_test r)"

text \<open>The loaders that apply to a module: the \<open>use\<close> lists of the matching rules,
  in rule order.\<close>

definition loaders_for :: "loader_rule list \<Rightarrow> string \<Rightarrow> loader list" where
  "loaders_for rules resource = concat (map rule_use (filter (\<lambda>r. rule_matches r resource) rules))"

text \<open>One loader run on a module's source; its error message becomes a
  \<open>TransformFailure\<close> naming the module.\<close>

definition run_stage ::
  "(loader \<Rightarrow> string \<Rightarrow> string + string) \<Rightarrow> string \<Rightarrow> loader \<Rightarrow> string \<Rightarrow> build_error + string"
where
  "run_stage run resource l src =
     (case run l src of Inl msg \<Rightarrow> Inl (TransformFailure resource msg) | Inr out \<Rightarrow> Inr out)"

text \<open>The loader chain, last loader first.\<close>

fun run_loaders ::
  "(loader \<Rightarrow> string \<Rightarrow> string + string) \<Rightarrow> string \<Rightarrow> loader list \<Rightarrow> string \<Rightarrow> build_error + string"
where
  "run_loaders run resource [] src = Inr src"
| "run_loaders run resource (l # ls) src =
     (case run_loaders run resource ls src of
        Inl e \<Rightarrow> Inl e
      | Inr out \<Rightarrow> run_stage run resource l out)"

definition transform_module ::
  "(loader \<Rightarrow> string \<Rightarrow> string + string) \<Rightarrow> string \<Rightarrow> string \<Rightarrow> build_error + string"
where
  "transform_module run resource src = run_loaders run resource (loaders_for module_loaders resource) src"

text \<open>The transform stage over a set of modules (spec section 4.4): every module is
  transformed from its raw source \<open>raw\<close>; the first failure aborts the stage. The
  result maps each module to its transformed text.\<close>

fun transform_all ::
  "(loader \<Rightarrow> string \<Rightarrow> string + string) \<Rightarrow> (string \<Rightarrow> string) \<Rightarrow> string list
     \<Rightarrow> build_error + (string \<times> string) list"
where
  "transform_all run raw [] = Inr []"
| "transform_all run raw (m # ms) =
     (case transform_module run m (raw m) of
        Inl e \<Rightarrow> Inl e
      | Inr out \<Rightarrow> (case transform_all run raw ms of Inl e \<Rightarrow> Inl e | Inr outs \<Rightarrow> Inr ((m, out) # outs)))"

definition module_output :: "(string \<times> string) list \<Rightarrow> string \<Rightarrow> string" where
  "module_output outs m = (case map_of outs m of Some out \<Rightarrow> out | None \<Rightarrow> [])"

text \<open>A stand-in for the two loaders that wraps its input.\<close>

definition demo_run :: "loader \<Rightarrow> string \<Rightarrow> string + string" where
  "demo_run l s = (if loader_name l = ''coffee-loader'' then Inr (''js('' @ s @ '')'')
                   else Inr (''min('' @ s @ '')''))"

subsection \<open>Lemmas\<close>

lemma js_not_coffee: "ends_with f ''.js'' \<Longrightarrow> \<not> ends_with f ''.coffee''"
proof
  assume "ends_with f ''.js''" and "ends_with f ''.coffee''"
  then obtain x y where "f = x @ ''.js''" and "f = y @ ''.coffee''" by (auto simp: ends_with_iff)
  then have "last f = CHR ''s''" and "last f = CHR ''e''" by simp_all
  then show False by simp
qed

lemma loaders_for_coffee:
  "ends_with f ''.coffee'' \<Longrightarrow> loaders_for module_loaders f = [uglify_loader, coffee_loader]"
  using js_not_coffee by (auto simp: loaders_for_def module_loaders_def rule_matches_def)

lemma loaders_for_js:
  "ends_with f ''.js'' \<Longrightarrow> loaders_for module_loaders f = [uglify_loader]"
  using js_not_coffee by (auto simp: loaders_for_def module_loaders_def rule_matches_def)

lemma loaders_for_other:
  "\<not> ends_with f ''.js'' \<Longrightarrow> \<not> ends_with f ''.coffee'' \<Longrightarrow> loaders_for module_loaders f = []"
  by (simp add: loaders_for_def module_loaders_def rule_matches_def)

lemma run_loaders_Inl:
  "run_loaders run f ls src = Inl e \<Longrightarrow>
     \<exists>l s msg. l \<in> set ls \<and> run l s = Inl msg \<and> e = TransformFailure f msg"
  by (induction ls arbitrary: e)
     (auto simp: run_stage_def split: sum.splits)

lemma run_loaders_Inr_Cons:
  "run_loaders run f (l # ls) src = Inr out \<Longrightarrow> \<exists>s. run l s = Inr out"
  by (auto simp: run_stage_def split: sum.splits)

lemma transform_all_Inr:
  "transform_all run raw ms = Inr outs \<Longrightarrow> m \<in> set ms \<Longrightarrow>
     transform_module run m (raw m) = Inr (module_output outs m)"
proof (induction ms arbitrary: outs)
  case Nil
  then show ?case by simp
next
  case (Cons m' ms)
  then obtain out outs' where t: "transform_module run m' (raw m') = Inr out"
    and r: "transform_all run raw ms = Inr outs'" and o: "outs = (m', out) # outs'"
    by (auto split: sum.splits)
  show ?case
  proof (cases "m = m'")
    case True
    with t o show ?thesis by (simp add: module_output_def)
  next
    case False
    with Cons.prems have "m \<in> set ms" by simp
    from Cons.IH [OF r this] False o show ?thesis by (simp add: module_output_def)
  qed
qed

lemma transform_all_Inl:
  "transform_all run raw ms = Inl e \<Longrightarrow> \<exists>m \<in> set ms. transform_module run m (raw m) = Inl e"
  by (induction ms) (auto split: sum.splits)

subsection \<open>Properties of the transform pipeline\<close>

text \<open>One rule per module: the two patterns \<open>/\.coffee$/\<close> and \<open>/\.js$/\<close>
  never both match, so at most one rule applies to any module.\<close>

lemma module_loaders_disjoint:
  "length (filter (\<lambda>r. rule_matches r f) module_loaders) \<le> 1"
  using js_not_coffee by (auto simp: module_loaders_def rule_matches_def)

text \<open>Claim C10 (CoffeeScript pipeline): a \<open>.coffee\<close> module is compiled by
  \<open>coffee-loader\<close> first and the result minified by UglifyES, the reverse of the
  order of the \<open>use\<close> list; a failure of the compiler skips the minifier.\<close>

theorem transform_coffee:
  assumes "ends_with f ''.coffee''"
  shows "transform_module run f src =
           (case run_stage run f coffee_loader src of
              Inl e \<Rightarrow> Inl e
            | Inr js \<Rightarrow> run_stage run f uglify_loader js)"
  using assms by (simp add: transform_module_def loaders_for_coffee)

text \<open>Script and other modules: a \<open>.js\<close> module is only minified; a
  module that is neither \<open>.js\<close> nor \<open>.coffee\<close> is passed through unchanged.\<close>

lemma transform_plain:
  "(ends_with f ''.js'' \<longrightarrow> transform_module run f src = run_stage run f uglify_loader src)
   \<and> (\<not> ends_with f ''.js'' \<and> \<not> ends_with f ''.coffee'' \<longrightarrow> transform_module run f src = Inr src)"
  by (simp add: transform_module_def loaders_for_js loaders_for_other split: sum.splits)

text \<open>Claim C20 (minifier last): every script or CoffeeScript module that transforms
  successfully is the output of the UglifyES loader with \<open>UglifyESOptions\<close>.\<close>

theorem transform_minified_last:
  assumes "transform_module run f src = Inr out" and "ends_with f ''.js'' \<or> ends_with f ''.coffee''"
  shows "\<exists>s. run uglify_loader s = Inr out"
proof -
  have "loaders_for module_loaders f = uglify_loader # tl (loaders_for module_loaders f)"
    using assms(2) loaders_for_js loaders_for_coffee by auto
  with assms(1) show ?thesis unfolding transform_module_def
    by (metis run_loaders_Inr_Cons)
qed

text \<open>Transform errors: a failed transform is a \<open>TransformFailure\<close> of
  the module carrying the message of a loader that applies to it.\<close>

lemma transform_failure:
  assumes "transform_module run f src = Inl e"
  shows "\<exists>l s msg. l \<in> set (loaders_for module_loaders f) \<and> run l s = Inl msg
                   \<and> e = TransformFailure f msg"
  using assms unfolding transform_module_def by (rule run_loaders_Inl)

subsection \<open>Witnesses\<close>

theorem transform_coffee_witness:
  "transform_module demo_run ''app.coffee'' ''x'' = Inr ''min(js(x))''"
proof -
  have "transform_module demo_run ''app.coffee'' ''x'' =
          (case run_stage demo_run ''app.coffee'' coffee_loader ''x'' of
             Inl e \<Rightarrow> Inl e | Inr js \<Rightarrow> run_stage demo_run ''app.coffee'' uglify_loader js)"
    by (rule transform_coffee) (simp add: ends_with_def)
  then show ?thesis
    by (simp add: run_stage_def demo_run_def coffee_loader_def uglify_loader_def)
qed

theorem transform_minified_last_witness: "\<exists>s. demo_run uglify_loader s = Inr ''min(js(x))''"
proof -
  have "transform_module demo_run ''app.coffee'' ''x'' = Inr ''min(js(x))''"
    by (simp add: transform_module_def loaders_for_def module_loaders_def rule_matches_def
        ends_with_def run_stage_def demo_run_def coffee_loader_def uglify_loader_def)
  then show ?thesis by (rule transform_minified_last) (simp add: ends_with_def)
qed

end
