(* ===== verification/ModuleIds.thy ===== *)
theory ModuleIds
  imports Prelude
begin

text \<open>
  \<open>new webpack.HashedModuleIdsPlugin()\<close> (line 152 of \<open>src/web/webpack.config.js\<close>),
  with its default options since the call passes none. The plugin is library code,
  modelled from its algorithm: before module ids are assigned, every module in turn
  gets as id the shortest prefix of the digest of its identifier (its path relative
  to the context, \<open>./<path>\<close>) that is at least \<open>hashDigestLength\<close> long and not yet
  used:
  \<open>let len = hashDigestLength; while (usedIds.has(hashId.substr(0, len))) len++\<close>.
  The digest (\<open>md5\<close>, \<open>base64\<close>) is the parameter \<open>digest\<close>. The loop has no
  termination argument: when every prefix from \<open>len\<close> on is already used, and in
  particular when the whole digest is, it runs forever. It is therefore a
  \<^theory_text>\<open>partial_function (option)\<close>, \<open>None\<close> being "does not return", and the
  lemmas say exactly when it returns.
\<close>

record hashed_ids_options =
  ids_hashFunction :: string
  ids_hashDigest :: string
  ids_hashDigestLength :: nat

text \<open>Line 152: no options object, so the plugin's defaults.\<close>

definition hashed_ids_plugin :: hashed_ids_options where
  "hashed_ids_plugin = \<lparr>ids_hashFunction = ''md5'', ids_hashDigest = ''base64'', ids_hashDigestLength = 4\<rparr>"

text \<open>\<open>module.libIdent({context})\<close>: the path relative to the context.\<close>

definition lib_ident :: "string \<Rightarrow> string" where
  "lib_ident m = ''./'' @ m"

text \<open>The \<open>while\<close> loop: \<open>hashId.substr(0, len)\<close> is \<open>take len hashId\<close>.\<close>

partial_function (option) prefix_len :: "string list \<Rightarrow> string \<Rightarrow> nat \<Rightarrow> nat option" where
  "prefix_len used hashId len =
     (if take len hashId \<in> set used then prefix_len used hashId (Suc len) else Some len)"

text \<open>The \<open>forEach\<close> over the modules, threading \<open>usedIds\<close>; the result pairs each
  module with its id.\<close>

fun assign_ids ::
  "(string \<Rightarrow> string) \<Rightarrow> nat \<Rightarrow> string list \<Rightarrow> string list \<Rightarrow> (string \<times> string) list option"
where
  "assign_ids digest n used [] = Some []"
| "assign_ids digest n used (m # ms) =
     (case prefix_len used (digest (lib_ident m)) n of
        None \<Rightarrow> None
      | Some len \<Rightarrow>
          (let mid = take len (digest (lib_ident m))
           in map_option (\<lambda>ids. (m, mid) # ids) (assign_ids digest n (used @ [mid]) ms)))"

definition hashed_module_ids :: "(string \<Rightarrow> string) \<Rightarrow> string list \<Rightarrow> (string \<times> string) list option" where
  "hashed_module_ids digest modules =
     assign_ids digest (ids_hashDigestLength hashed_ids_plugin) [] modules"

text \<open>A digest table for the examples below: \<open>./a.js\<close> and \<open>./b.js\<close> share their
  first four digest characters.\<close>

definition sample_digest :: "string \<Rightarrow> string" where
  "sample_digest s =
     (if s = ''./a.js'' then ''abcdef'' else if s = ''./b.js'' then ''abcdxy'' else ''zz'')"

subsection \<open>The probing loop\<close>


lemma prefix_len_Some:
  assumes ret: "prefix_len used h n = Some r"
  shows "n \<le> r \<and> take r h \<notin> set used \<and> (\<forall>k. n \<le> k \<and> k < r \<longrightarrow> take k h \<in> set used)"
proof (rule prefix_len.raw_induct
    [where P = "\<lambda>used h n r. n \<le> r \<and> take r h \<notin> set used
                             \<and> (\<forall>k. n \<le> k \<and> k < r \<longrightarrow> take k h \<in> set used)", OF _ ret])
  fix f :: "string list \<Rightarrow> string \<Rightarrow> nat \<Rightarrow> nat option" and used h n r
  assume IH: "\<And>used h n r. f used h n = Some r \<Longrightarrow> n \<le> r \<and> take r h \<notin> set used
                             \<and> (\<forall>k. n \<le> k \<and> k < r \<longrightarrow> take k h \<in> set used)"
    and eq: "(if take n h \<in> set used then f used h (Suc n) else Some n) = Some r"
  show "n \<le> r \<and> take r h \<notin> set used \<and> (\<forall>k. n \<le> k \<and> k < r \<longrightarrow> take k h \<in> set used)"
  proof (cases "take n h \<in> set used")
    case True
    with eq have "f used h (Suc n) = Some r" by simp
    from IH [OF this] have le: "Suc n \<le> r" and nu: "take r h \<notin> set used"
      and all: "\<forall>k. Suc n \<le> k \<and> k < r \<longrightarrow> take k h \<in> set used" by blast+
    have "\<forall>k. n \<le> k \<and> k < r \<longrightarrow> take k h \<in> set used"
    proof (intro allI impI)
      fix k assume "n \<le> k \<and> k < r"
      then consider "k = n" | "Suc n \<le> k \<and> k < r" by linarith
      then show "take k h \<in> set used" using True all by cases blast+
    qed
    with le nu show ?thesis by simp
  next
    case False
    with eq show ?thesis by auto
  qed
qed

lemma prefix_len_returns:
  "n \<le> len \<Longrightarrow> take len h \<notin> set used \<Longrightarrow> \<exists>r. prefix_len used h n = Some r"
proof (induction "len - n" arbitrary: n)
  case 0
  then have "n = len" by simp
  with 0 show ?case by (simp add: prefix_len.simps)
next
  case (Suc d)
  show ?case
  proof (cases "take n h \<in> set used")
    case True
    with Suc.prems have "n \<noteq> len" by auto
    with Suc.prems Suc.hyps have "d = len - Suc n" and "Suc n \<le> len" by arith+
    from Suc.hyps(1) [OF this] Suc.prems(2) obtain r where "prefix_len used h (Suc n) = Some r"
      by blast
    with True show ?thesis by (simp add: prefix_len.simps)
  next
    case False
    then show ?thesis by (simp add: prefix_len.simps)
  qed
qed

lemma prefix_len_eqI:
  assumes "n \<le> r" and "take r h \<notin> set used"
    and "\<forall>k. n \<le> k \<and> k < r \<longrightarrow> take k h \<in> set used"
  shows "prefix_len used h n = Some r"
proof -
  obtain r' where r': "prefix_len used h n = Some r'" using assms prefix_len_returns by blast
  from prefix_len_Some [OF r'] assms have "\<not> r' < r" and "\<not> r < r'" by auto
  with r' show ?thesis by simp
qed

lemma prefix_len_None:
  "\<forall>len. n \<le> len \<longrightarrow> take len h \<in> set used \<Longrightarrow> prefix_len used h n = None"
  using prefix_len_Some by (cases "prefix_len used h n") blast+


subsection \<open>Id assignment\<close>

lemma assign_ids_Some:
  "assign_ids digest n used ms = Some ids \<Longrightarrow>
     map fst ids = ms \<and> distinct (map snd ids) \<and> set (map snd ids) \<inter> set used = {}
     \<and> (\<forall>(m, i) \<in> set ids. \<exists>len. n \<le> len \<and> i = take len (digest (lib_ident m)))"
proof (induction ms arbitrary: used ids)
  case Nil
  then show ?case by simp
next
  case (Cons m ms)
  then obtain len rest where pl: "prefix_len used (digest (lib_ident m)) n = Some len"
    and r: "assign_ids digest n (used @ [take len (digest (lib_ident m))]) ms = Some rest"
    and ids: "ids = (m, take len (digest (lib_ident m))) # rest"
    by (auto split: option.splits simp: Let_def)
  from prefix_len_Some [OF pl] have "n \<le> len" and "take len (digest (lib_ident m)) \<notin> set used"
    by blast+
  with Cons.IH [OF r] ids show ?case by auto
qed

lemma assign_ids_returns:
  assumes "distinct ms" and "inj_on (\<lambda>m. digest (lib_ident m)) (set ms)"
    and "\<forall>m \<in> set ms. length (digest (lib_ident m)) = L"
    and "\<forall>u \<in> set used. \<forall>m \<in> set ms. u \<noteq> digest (lib_ident m)"
  shows "\<exists>ids. assign_ids digest n used ms = Some ids"
  using assms
proof (induction ms arbitrary: used)
  case Nil
  then show ?case by simp
next
  case (Cons m ms)
  let ?D = "\<lambda>m. digest (lib_ident m)"
  have "?D m \<notin> set used" using Cons.prems(4) by auto
  then have "take (max n (length (?D m))) (?D m) \<notin> set used" by simp
  from prefix_len_returns [OF max.cobounded1 this]
  obtain len where pl: "prefix_len used (?D m) n = Some len" by blast
  let ?mid = "take len (?D m)"
  have fresh: "\<forall>u \<in> set (used @ [?mid]). \<forall>m' \<in> set ms. u \<noteq> ?D m'"
  proof (intro ballI)
    fix u m' assume u: "u \<in> set (used @ [?mid])" and m': "m' \<in> set ms"
    show "u \<noteq> ?D m'"
    proof
      assume eq: "u = ?D m'"
      show False
      proof (cases "u \<in> set used")
        case True
        with Cons.prems(4) m' eq show False by auto
      next
        case False
        with u have "u = ?mid" by simp
        with eq have "?mid = ?D m'" by simp
        moreover have "length (?D m') = length (?D m)" using Cons.prems(3) m' by simp
        ultimately have "length (?mid) = length (?D m)" by simp
        then have "?mid = ?D m" by (cases "length (?D m) \<le> len") auto
        with \<open>?mid = ?D m'\<close> have "?D m' = ?D m" by simp
        with Cons.prems(1,2) m' show False by (auto simp: inj_on_def)
      qed
    qed
  qed
  from Cons.IH [of "used @ [?mid]"] Cons.prems fresh obtain rest
    where "assign_ids digest n (used @ [?mid]) ms = Some rest"
    by (auto simp: inj_on_def)
  with pl show ?case by (simp add: Let_def)
qed

text \<open>Modules sharing one digest \<open>h\<close>: after the prefixes of lengths \<open>n\<close> to
  \<open>n + j - 1\<close> are used, the next modules get the prefixes of lengths \<open>n + j\<close>,
  \<open>n + j + 1\<close>, \dots, until the whole digest is used; the module after that finds
  every prefix taken.\<close>

lemma assign_ids_same_digest:
  assumes "\<forall>m \<in> set ms. digest (lib_ident m) = h" and "n \<le> length h" and "n + j \<le> length h + 1"
  shows "assign_ids digest n (map (\<lambda>k. take k h) [n..<n + j]) ms =
    (if n + j + length ms \<le> length h + 1
     then Some (zip ms (map (\<lambda>k. take k h) [n + j..<n + j + length ms])) else None)"
  using assms
proof (induction ms arbitrary: j)
  case Nil
  then show ?case by simp
next
  case (Cons m ms)
  let ?used = "map (\<lambda>k. take k h) [n..<n + j]"
  have dm: "digest (lib_ident m) = h" using Cons.prems(1) by simp
  show ?case
  proof (cases "n + j \<le> length h")
    case True
    have "take (n + j) h \<notin> set ?used"
    proof
      assume "take (n + j) h \<in> set ?used"
      then obtain k where "k < n + j" and "take k h = take (n + j) h" by auto
      then have "length (take k h) = length (take (n + j) h)" by simp
      with \<open>k < n + j\<close> True show False by simp
    qed
    then have pl: "prefix_len ?used h n = Some (n + j)"
      by (intro prefix_len_eqI) auto
    have used': "?used @ [take (n + j) h] = map (\<lambda>k. take k h) [n..<n + Suc j]" by simp
    have rest: "assign_ids digest n (map (\<lambda>k. take k h) [n..<n + Suc j]) ms =
      (if n + Suc j + length ms \<le> length h + 1
       then Some (zip ms (map (\<lambda>k. take k h) [n + Suc j..<n + Suc j + length ms])) else None)"
      using Cons.prems True by (intro Cons.IH) auto
    have up: "[n + j..<n + j + length (m # ms)] = (n + j) # [n + Suc j..<n + Suc j + length ms]"
      using upt_conv_Cons [of "n + j" "n + j + Suc (length ms)"] by simp
    have step: "assign_ids digest n ?used (m # ms) = map_option (\<lambda>ids. (m, take (n + j) h) # ids)
        (assign_ids digest n (map (\<lambda>k. take k h) [n..<n + Suc j]) ms)"
      by (simp only: assign_ids.simps dm pl option.simps Let_def used')
    show ?thesis unfolding step rest up by simp
  next
    case False
    with Cons.prems have nj: "n + j = length h + 1" by simp
    have "\<forall>k. n \<le> k \<longrightarrow> take k h \<in> set ?used"
    proof (intro allI impI)
      fix k assume "n \<le> k"
      show "take k h \<in> set ?used"
      proof (cases "k < n + j")
        case True
        with \<open>n \<le> k\<close> show ?thesis by auto
      next
        case False
        then have "take k h = take (length h) h" using nj by simp
        moreover have "length h \<in> set [n..<n + j]" using Cons.prems(2) nj by simp
        ultimately show ?thesis by (metis image_eqI set_map)
      qed
    qed
    then have "prefix_len ?used h n = None" by (rule prefix_len_None)
    with nj dm show ?thesis by simp
  qed
qed

subsection \<open>Module ids\<close>

lemma hashed_module_ids_sample:
  "hashed_module_ids sample_digest [''a.js'', ''b.js''] = Some [(''a.js'', ''abcd''), (''b.js'', ''abcdx'')]"
  by (simp add: prefix_len.simps hashed_module_ids_def hashed_ids_plugin_def sample_digest_def
      lib_ident_def)

text \<open>Claim C12. The probing loop of the plugin returns exactly when some prefix of the
  digest at least as long as the starting length is unused; otherwise it never ends.\<close>

theorem prefix_len_terminates:
  "(\<exists>r. prefix_len used h n = Some r) \<longleftrightarrow> (\<exists>len. n \<le> len \<and> take len h \<notin> set used)"
  using prefix_len_Some prefix_len_returns by blast

theorem prefix_len_terminates_witness:
  "\<exists>r. prefix_len [''abcd''] ''abcdef'' 4 = Some r"
proof -
  have "\<exists>len. 4 \<le> len \<and> take len ''abcdef'' \<notin> set [''abcd'']"
    by (intro exI [of _ 5]) simp
  then show ?thesis using prefix_len_terminates [of "[''abcd'']" "''abcdef''" 4] by blast
qed

text \<open>Claim C13. When it returns, the loop's length is the least one from the start whose
  prefix is not yet used, and that least length is what it returns.\<close>

theorem prefix_len_least:
  "prefix_len used h n = Some r \<longleftrightarrow>
     n \<le> r \<and> take r h \<notin> set used \<and> (\<forall>k. n \<le> k \<and> k < r \<longrightarrow> take k h \<in> set used)"
proof
  assume "prefix_len used h n = Some r"
  then show "n \<le> r \<and> take r h \<notin> set used \<and> (\<forall>k. n \<le> k \<and> k < r \<longrightarrow> take k h \<in> set used)"
    by (rule prefix_len_Some)
next
  assume "n \<le> r \<and> take r h \<notin> set used \<and> (\<forall>k. n \<le> k \<and> k < r \<longrightarrow> take k h \<in> set used)"
  then show "prefix_len used h n = Some r" using prefix_len_eqI by blast
qed

theorem prefix_len_least_witness:
  "prefix_len [''abcd''] ''abcdef'' 4 = Some 5"
proof -
  have "\<forall>k. 4 \<le> k \<and> k < (5::nat) \<longrightarrow> take k ''abcdef'' \<in> set [''abcd'']"
  proof (intro allI impI)
    fix k :: nat assume "4 \<le> k \<and> k < 5"
    then have "k = 4" by simp
    then show "take k ''abcdef'' \<in> set [''abcd'']" by simp
  qed
  then show ?thesis using prefix_len_least [of "[''abcd'']" "''abcdef''" 4 5] by simp
qed

text \<open>Claim C14. The ids the plugin assigns (its default \<open>hashDigestLength\<close> 4) are
  pairwise distinct, one per module in order, each a prefix of the module's digest at
  least four characters long.\<close>

theorem hashed_module_ids_ids:
  "hashed_module_ids digest ms = Some ids \<Longrightarrow>
     map fst ids = ms \<and> distinct (map snd ids)
     \<and> (\<forall>(m, i) \<in> set ids. \<exists>len. 4 \<le> len \<and> i = take len (digest (lib_ident m)))"
  unfolding hashed_module_ids_def hashed_ids_plugin_def
  using assign_ids_Some by fastforce

theorem hashed_module_ids_ids_witness:
  "hashed_module_ids sample_digest [''a.js'', ''b.js''] = Some [(''a.js'', ''abcd''), (''b.js'', ''abcdx'')]
   \<and> distinct [''abcd'', ''abcdx'']"
  using hashed_module_ids_ids [OF hashed_module_ids_sample] hashed_module_ids_sample by simp

text \<open>Claim C15. For distinct modules whose digests are pairwise different and of one
  length (as \<open>md5\<close> in \<open>base64\<close> is), the plugin assigns ids to all of them.\<close>

theorem hashed_module_ids_returns:
  "distinct ms \<Longrightarrow> inj_on (\<lambda>m. digest (lib_ident m)) (set ms) \<Longrightarrow>
   \<forall>m \<in> set ms. length (digest (lib_ident m)) = L \<Longrightarrow>
   \<exists>ids. hashed_module_ids digest ms = Some ids"
  unfolding hashed_module_ids_def using assign_ids_returns [of ms digest L "[]"] by simp

theorem hashed_module_ids_returns_witness:
  "\<exists>ids. hashed_module_ids sample_digest [''a.js'', ''b.js''] = Some ids"
  by (rule hashed_module_ids_returns [of _ _ 6]) (simp_all add: sample_digest_def lib_ident_def)

text \<open>Claim C16. Modules whose digests coincide, as happens when two modules have the
  same identifier (the digest of \<open>libIdent\<close> is all the plugin looks at), get the
  prefixes of lengths 4, 5, 6, \dots of that digest in turn; when there are more of
  them than the digest has prefixes from length 4 on (22 for the 24 characters of
  \<open>md5\<close> in \<open>base64\<close>), the loop runs forever.\<close>

theorem hashed_module_ids_same_digest:
  "\<forall>m \<in> set ms. digest (lib_ident m) = h \<Longrightarrow> 4 \<le> length h \<Longrightarrow>
   hashed_module_ids digest ms =
     (if length ms + 3 \<le> length h
      then Some (zip ms (map (\<lambda>k. take k h) [4..<4 + length ms])) else None)"
  using assign_ids_same_digest [of ms digest h 4 0]
  by (simp add: hashed_module_ids_def hashed_ids_plugin_def add.commute)

theorem hashed_module_ids_same_digest_witness:
  "hashed_module_ids (\<lambda>s. ''ZnJvbS1tZDUtb2YtbW9kdWxl'') (replicate 22 ''a.js'') = None
   \<and> hashed_module_ids (\<lambda>s. ''ZnJvbS1tZDUtb2YtbW9kdWxl'') [''a.js'', ''b.js'']
       = Some [(''a.js'', ''ZnJv''), (''b.js'', ''ZnJvb'')]"
proof
  show "hashed_module_ids (\<lambda>s. ''ZnJvbS1tZDUtb2YtbW9kdWxl'') (replicate 22 ''a.js'') = None"
    using hashed_module_ids_same_digest [of "replicate 22 ''a.js''" "\<lambda>s. ''ZnJvbS1tZDUtb2YtbW9kdWxl''" "''ZnJvbS1tZDUtb2YtbW9kdWxl''"]
    by simp
  show "hashed_module_ids (\<lambda>s. ''ZnJvbS1tZDUtb2YtbW9kdWxl'') [''a.js'', ''b.js'']
       = Some [(''a.js'', ''ZnJv''), (''b.js'', ''ZnJvb'')]"
    using hashed_module_ids_same_digest [of "[''a.js'', ''b.js'']" "\<lambda>s. ''ZnJvbS1tZDUtb2YtbW9kdWxl''" "''ZnJvbS1tZDUtb2YtbW9kdWxl''"]
    by (simp add: upt_conv_Cons)
qed

end
