(* ===== verification/LibraryTarget.thy ===== *)
theory LibraryTarget
  imports Output
begin

text \<open>
  \<open>output.library: 'jQuery'\<close> and \<open>output.libraryTarget: 'window'\<close> (lines 116--117 of
  \<open>src/web/webpack.config.js\<close>). With these options webpack wraps every entry chunk so
  that, when the page runs it, the exports of the chunk's entry module are assigned to
  the property \<open>library\<close> of \<open>window\<close>: \<open>window["jQuery"] = <exports>\<close>. The page's
  globals are a map from property names to values (\<open>'v\<close> is the type of JavaScript
  values); a page runs its entry bundles one after the other in script order. Only the
  \<open>window\<close> target is modelled: \<open>library_global\<close> is \<open>None\<close> for any other target,
  for which the model assigns nothing.
\<close>

definition library_global :: "output_config \<Rightarrow> string option" where
  "library_global cfg =
     (if output_libraryTarget cfg = ''window'' then Some (output_library cfg) else None)"

text \<open>Running one entry bundle whose entry module exports \<open>exports\<close>.\<close>

definition run_entry_bundle :: "output_config \<Rightarrow> (string \<rightharpoonup> 'v) \<Rightarrow> 'v \<Rightarrow> (string \<rightharpoonup> 'v)" where
  "run_entry_bundle cfg window exports =
     (case library_global cfg of Some name \<Rightarrow> window(name \<mapsto> exports) | None \<Rightarrow> window)"

text \<open>A page that loads the bundles of the entries \<open>es\<close> in this order; \<open>exports e\<close>
  is what the entry module of \<open>e\<close> exports.\<close>

definition run_page ::
  "output_config \<Rightarrow> (string \<Rightarrow> 'v) \<Rightarrow> (string \<rightharpoonup> 'v) \<Rightarrow> string list \<Rightarrow> (string \<rightharpoonup> 'v)" where
  "run_page cfg exports window es = fold (\<lambda>e w. run_entry_bundle cfg w (exports e)) es window"

lemma library_global_webpack [simp]: "library_global (webpack_output d) = Some ''jQuery''"
  by (simp add: library_global_def webpack_output_def)

lemma run_page_window_target:
  "library_global cfg = Some name \<Longrightarrow>
   run_page cfg exports window es = (if es = [] then window else window(name \<mapsto> exports (last es)))"
proof (induction es arbitrary: window rule: rev_induct)
  case Nil
  then show ?case by (simp add: run_page_def)
next
  case (snoc e es)
  then show ?case by (simp add: run_page_def run_entry_bundle_def fun_eq_iff)
qed

text \<open>Under the configured output, running a page's entry bundles sets the
  global \<open>window.jQuery\<close> to the exports of the last bundle run and leaves every other
  global, the lowercase \<open>jquery\<close> of the comment at lines 114--115 included, as it
  was.\<close>

lemma run_page_exposes_last:
  "run_page (webpack_output d) exports window es =
     (if es = [] then window else window(''jQuery'' \<mapsto> exports (last es)))"
  by (rule run_page_window_target) simp

end
