(* ===== verification/Spec2Isabelle.thy ===== *)
theory Spec2Isabelle
  imports Shim Entries Output Bundle Writer Resolve Graph Loaders ModuleIds LibraryTarget
begin

text \<open>
  A verification development of \<open>src/web/webpack.config.js\<close> of overview-server,
  the webpack configuration that bundles the site's scripts into cache-busted files and
  makes Play's \<open>AssetsFinder\<close> find them. Play looks up a versioned script
  \<open>X.js\<close> by reading \<open>X.js.md5\<close> and serving \<open><token>-X.js\<close>; webpack names
  entry chunks \<open>[chunkhash]-[name].js\<close>; the plugin
  \<open>RedirectPlayFrameworkUsingDummyMd5Files\<close> (lines 61--90) bridges the two by
  writing, at webpack's \<open>emit\<close> phase, a sidecar \<open><name>.js.md5\<close> holding the
  chunk hash for every emitted file whose base name matches
  \<open>/^([a-f0-9]+)-(.*\.js)$/\<close>.

  \<^bold>\<open>Theories.\<close>
  \<^item> \<open>Prelude\<close>: JavaScript objects as association lists (\<open>'v jsobject\<close>,
    assignment is \<open>AList.update\<close>, so insertion order and key uniqueness are kept),
    the key order of \<open>for ... in\<close> (\<open>for_in_keys\<close>: array-index keys ascending,
    then the others in insertion order), \<open>String.split\<close> (\<open>split_on\<close>), the last
    path component (\<open>path_basename\<close>), suffix and prefix tests, and the generic lemmas
    on \<open>fold AList.update\<close> the components share.
  \<^item> \<open>Shim\<close>: the plugin. \<open>exec_hashed_js\<close> is the regular expression of line 70
    as a greedy scan, proved equal to the declarative capture relation
    \<open>hashed_js_captures\<close>; \<open>fake_md5_of\<close> is the loop body of lines 67--78,
    \<open>fake_md5_loop\<close> the loop of lines 64--79 with its accumulator,
    \<open>install_fake_md5_assets\<close> the \<open>forEach\<close> of lines 81--86 and
    \<open>redirect_emit\<close> the whole hook. Its lemmas: the sidecar's name and content,
    the frame (other assets unchanged), additivity of the keys, idempotence,
    independence from the \<open>for ... in\<close> order, and, for any assets, the sidecar of a
    base name holding the hash of the last asset that captures it, in whatever
    directory, overwriting what was there: behaviours that differ from the comment
    above the plugin (one \<open>[dirname]/[basename].js.md5\<close> per script) and the spec.
  \<^item> \<open>Entries\<close>: \<open>entryPoints\<close> (lines 8--24) and the loop of lines 92--95
    building \<open>entryPointsMap\<close>: for any list of entry points, each key once in
    the order of its first entry point and mapped to the module of its last one, while
    the spec's registry \<open>register_entries\<close> rejects exactly the lists with a repeated
    key.
  \<^item> \<open>Output\<close>: the \<open>output\<close> object of lines 103--118 as a record and the three
    file-name templates instantiated by webpack's placeholder substitution
    (\<open>fill_template\<close>, modelled from the spec).
  \<^item> \<open>Bundle\<close>: webpack's chunking and emission, library code modelled from the spec
    (section 4.5): one chunk per entry, one shared chunk for modules two entries reach
    (webpack 3 itself makes no shared chunk without \<open>CommonsChunkPlugin\<close>; the
    claims about names and sidecars hold for either),
    canonical member order, names from the templates, \<open>ChunkNamingCollision\<close> on a
    repeated name. The content hash and the source-map text are parameters
    (\<open>chunk_hash\<close>, \<open>source_map\<close>): the properties hold for every hash function
    producing lowercase hex digits, which is what webpack's \<open>[chunkhash]\<close> is.
  \<^item> \<open>Writer\<close>: webpack's writer with \<open>WebpackCleanupPlugin\<close> (line 146), from the
    spec (section 4.7): the old output is dropped, files are written by base name, an
    I/O failure (the parameter \<open>fails\<close>) stops with \<open>WriteFailure\<close>. The
    plugin itself deletes stale files after the emit, so the two agree on a successful
    build of flat names, which is all the claims use.
  \<^item> \<open>Resolve\<close>: the \<open>resolve\<close> section (lines 155--188) and the globals of
    \<open>ProvidePlugin\<close> (lines 147--151). \<open>alias_table\<close> is the table of lines
    158--187; \<open>resolve_alias\<close> is webpack's alias plugin (first alias equal to the
    request or a segment prefix of it wins), \<open>alias_table_valid\<close> the spec's
    overlap validation, \<open>resolve_module\<close> the lookup over \<open>resolve.modules\<close> and
    \<open>resolve.extensions\<close> with file existence as a parameter (searched at the context
    root only, as the spec has it; enhanced-resolve also searches the importer's parent
    directories). Its lemmas: the configured table is valid, hence order independent;
    lookup, idempotence, and the resolution of the jQuery bindings on any file tree.
  \<^item> \<open>Graph\<close>: the dependency graph builder (spec 4.3): \<open>traverse\<close>, a worklist
    traversal guarded by a visited list, total by a lexicographic measure (unvisited
    modules, then worklist length), proved to return exactly the modules reachable
    through \<open>depends_on\<close>, each once (invariant \<open>graph_closed\<close>, as in a DFS
    exploration); \<open>compile_entries\<close> runs it for each entry; unresolved
    specifiers are errors.
  \<^item> \<open>Loaders\<close>: \<open>UglifyESOptions\<close> and \<open>module.loaders\<close> (lines 97--101,
    119--143) as records; \<open>transform_module\<close> runs the matching rule's loaders
    last-first (CoffeeScript, then UglifyES), \<open>transform_all\<close> every module; the
    loaders themselves are the parameter \<open>run\<close>.
  \<^item> \<open>ModuleIds\<close>: \<open>HashedModuleIdsPlugin\<close> (line 152) with its defaults
    (\<open>md5\<close>, \<open>base64\<close>, \<open>hashDigestLength\<close> 4; the digest is the parameter
    \<open>digest\<close>). Its probing loop \<open>prefix_len\<close> (lengthen the id while the prefix is
    used) has no termination argument, so it is a \<^theory_text>\<open>partial_function (option)\<close>;
    \<open>assign_ids\<close> threads the used ids over the modules. Its lemmas: the loop
    returns exactly when an unused prefix exists and then returns the least one; the ids
    are distinct prefixes of at least four characters; they are all assigned when the
    digests are distinct and of one length; modules sharing one digest get its
    prefixes of lengths 4, 5, \dots, and the 22nd of them (24 characters of
    \<open>md5\<close> in \<open>base64\<close>) makes the loop run forever.
  \<^item> \<open>LibraryTarget\<close>: \<open>library\<close>/\<open>libraryTarget\<close> (lines 116--117): each entry
    bundle assigns its entry's exports to \<open>window.jQuery\<close>; a page running several
    bundles keeps the last one's exports there, and no lowercase \<open>jquery\<close> global is
    set, whatever the comment at lines 114--115 says (a lemma, no claim: the effect is
    the two configured strings).
  \<^item> this theory: Play's lookup (\<open>play_versioned_file\<close>, \<open>play_serve\<close>),
    \<open>build\<close>, the plugin pipeline of lines 145--154 (emission, the hook, the writer),
    and \<open>full_build\<close>, the whole configuration: the graphs of the entries of
    \<open>entryPointsMap\<close>, the transforms of every reached module, then \<open>build\<close>. Its
    claims span the components: every configured page is served by Play through its
    sidecar, the stages a build can fail in (never a naming collision), the hook adds
    exactly one sidecar per entry, the output directory is exact and flat, and
    determinism in the order modules are discovered.

  \<^bold>\<open>Bounds and invariants.\<close> The plugin's accumulator holds only well-formed
  records (\<open>Shim.fake_md5_asset_wf\<close>); the array-index rule behind the
  \<open>for ... in\<close> order of line 66 has its bound \<open>4294967294\<close> (at most ten digits),
  proved from the weight of the leading digit (\<open>Prelude.decimal_value_Cons\<close>).
  \<open>devtool: 'source-map'\<close> (line 106) is modelled by the separate \<open>[file].map\<close>
  asset of each chunk, which C1 shows is written beside every served script.

  \<^bold>\<open>Not modelled.\<close> How \<open>ProvidePlugin\<close> injects its bindings into modules,
  where the module ids of \<open>ModuleIds\<close> appear in a chunk's text, the text of the
  \<open>library\<close> wrapper and the \<open>sourceMappingURL\<close> comment of \<open>devtool\<close>: they
  affect only the text inside a chunk, which the model takes through
  \<open>chunk_hash\<close>, \<open>source_map\<close> and the loaders' \<open>run\<close>, not the names or the
  sidecars; the text of a source map (the \<open>source_map\<close> parameter) for the same
  reason. Library targets other than \<open>window\<close>, which the configuration does not
  use. The CoffeeScript compiler and UglifyES themselves; file-system I/O beyond
  file existence and the success or failure of each write; path normalisation beyond
  \<open>.\<close> and \<open>..\<close> segments. No loop needs fuel: the configuration's loops run
  over finite lists, the graph traversal terminates by its measure, and the one loop
  that can run forever, the id probing of \<open>HashedModuleIdsPlugin\<close>, is a partial
  function whose termination the theory \<open>ModuleIds\<close> characterises exactly.
\<close>

section \<open>Host lookup and the build pipeline\<close>

text \<open>The host framework's lookup (spec section 6): an asset \<open>X.js\<close> is found by
  reading \<open>X.js.md5\<close> and serving \<open><token>-X.js\<close>. The output directory is
  the map from file names to contents that the writer produces.\<close>

definition play_versioned_file :: "(string \<rightharpoonup> string) \<Rightarrow> string \<Rightarrow> string option" where
  "play_versioned_file dir x = map_option (\<lambda>token. token @ CHR ''-'' # x) (dir (x @ ''.md5''))"

definition play_serve :: "(string \<rightharpoonup> string) \<Rightarrow> string \<Rightarrow> string option" where
  "play_serve dir x = (case play_versioned_file dir x of Some f \<Rightarrow> dir f | None \<Rightarrow> None)"

text \<open>The build pipeline: chunking and emission (Bundle), the emit hook of lines
  62--90 (Shim), then the writer (Writer). An error of any stage aborts the build.\<close>

definition build ::
  "(string \<Rightarrow> bool) \<Rightarrow> (string \<rightharpoonup> string) \<Rightarrow> output_config \<Rightarrow> (string \<Rightarrow> string)
     \<Rightarrow> (string \<Rightarrow> string) \<Rightarrow> (string \<Rightarrow> string) \<Rightarrow> entry_modules
     \<Rightarrow> build_error + (string \<rightharpoonup> string)" where
  "build fails previous cfg chunk_hash content source_map es =
     (case emit_chunks cfg chunk_hash content source_map (make_chunks es) of
        Inl e \<Rightarrow> Inl e
      | Inr assets \<Rightarrow>
          (case output_writer fails previous (redirect_emit assets) of
             (dir, None) \<Rightarrow> Inr dir
           | (_, Some e) \<Rightarrow> Inl e))"

text \<open>The configuration as a whole (\<open>module.exports\<close>): the graph of every entry of
  \<open>entryPointsMap\<close> (\<open>entry\<close>, line 105) under the \<open>resolve\<close> section, the loaders
  on every reached module, then the plugin pipeline. \<open>run\<close> stands for the two loaders,
  \<open>raw\<close> for the source files, \<open>fs\<close> for their import specifiers.\<close>

definition full_build ::
  "(string \<Rightarrow> bool) \<Rightarrow> (string \<rightharpoonup> string) \<Rightarrow> string \<Rightarrow> (string \<Rightarrow> string)
     \<Rightarrow> (loader \<Rightarrow> string \<Rightarrow> string + string) \<Rightarrow> (string \<Rightarrow> string) \<Rightarrow> (string \<Rightarrow> string)
     \<Rightarrow> source_tree \<Rightarrow> build_error + (string \<rightharpoonup> string)" where
  "full_build fails previous dirname chunk_hash run raw source_map fs =
     (case compile_entries fs entryPointsMap of
        Inl e \<Rightarrow> Inl e
      | Inr es \<Rightarrow>
          (case transform_all run raw (remdups (concat (map snd es))) of
             Inl e \<Rightarrow> Inl e
           | Inr outs \<Rightarrow> build fails previous (webpack_output dirname) chunk_hash (module_output outs)
                           source_map es))"

text \<open>Sample source trees: every entry imports \<open>jquery\<close>, with and without the
  vendored file.\<close>

definition demo_tree :: source_tree where
  "demo_tree = map (\<lambda>e. (''bundle/'' @ e @ ''.js'', [''jquery''])) entryPoints @ [(''vendor/jquery-2-1-0.js'', [])]"

definition missing_tree :: source_tree where
  "missing_tree = map (\<lambda>e. (''bundle/'' @ e @ ''.js'', [''jquery''])) entryPoints"

section \<open>Lemmas on emitted names\<close>

lemma hex_no_slash: "list_all is_hex_char h \<Longrightarrow> CHR ''/'' \<notin> set h"
  by (auto simp: list_all_iff is_hex_char_def)

lemma hex_no_line_terminator:
  "list_all is_hex_char h \<Longrightarrow> list_all (\<lambda>c. \<not> is_line_terminator c) h"
  by (auto simp: list_all_iff is_hex_char_def is_line_terminator_def)

lemma make_chunks_cases:
  "c \<in> set (make_chunks es) \<Longrightarrow>
     (\<exists>n ms. (n, ms) \<in> set es \<and> c = EntryChunk n (entry_chunk_modules es ms))
     \<or> c = SharedChunk ''0'' (shared_modules es)"
  by (auto simp: make_chunks_def split: if_splits)

lemma keys_chunk_assets:
  "obj_keys (chunk_assets cfg chunk_hash content source_map c)
     = [chunk_file cfg chunk_hash content c, source_map_name cfg (chunk_file cfg chunk_hash content c)]"
  by (simp add: chunk_assets_def Let_def)

lemma mem_keys_concat:
  "x \<in> set (map fst (concat (map f xs))) \<longleftrightarrow> (\<exists>y \<in> set xs. x \<in> set (map fst (f y)))"
  by (induction xs) auto

lemma emitted_key_cases:
  assumes "g \<in> set (obj_keys (concat (map (chunk_assets (webpack_output d) chunk_hash content source_map)
                                   (make_chunks es))))"
  obtains (script) c where "c \<in> set (make_chunks es)" "g = chunk_file (webpack_output d) chunk_hash content c"
        | (map) c where "c \<in> set (make_chunks es)" "g = chunk_file (webpack_output d) chunk_hash content c @ ''.map''"
proof -
  from assms obtain c where c: "c \<in> set (make_chunks es)"
    and "g \<in> set (obj_keys (chunk_assets (webpack_output d) chunk_hash content source_map c))"
    by (auto simp only: mem_keys_concat)
  then have "g \<in> set [chunk_file (webpack_output d) chunk_hash content c,
                       source_map_name (webpack_output d) (chunk_file (webpack_output d) chunk_hash content c)]"
    by (simp only: keys_chunk_assets)
  with c that show ?thesis by auto
qed

lemma chunk_file_cases:
  assumes "c \<in> set (make_chunks es)"
  obtains (entry) n ms where "(n, ms) \<in> set es"
      "chunk_file (webpack_output d) chunk_hash content c
         = chunk_hash (serialize content (entry_chunk_modules es ms)) @ CHR ''-'' # n @ ''.js''"
      "c = EntryChunk n (entry_chunk_modules es ms)"
    | (shared) "chunk_file (webpack_output d) chunk_hash content c
         = chunk_hash (serialize content (shared_modules es)) @ ''.chunk.js''"
      "c = SharedChunk ''0'' (shared_modules es)"
  using make_chunks_cases [OF assms] by (auto simp: chunk_file_def)

lemma emitted_keys_flat:
  assumes hex: "\<forall>x. list_all is_hex_char (chunk_hash x)"
    and flat: "list_all (\<lambda>(n, _). CHR ''/'' \<notin> set n) es"
    and g: "g \<in> set (obj_keys (concat (map (chunk_assets (webpack_output d) chunk_hash content source_map)
                                   (make_chunks es))))"
  shows "CHR ''/'' \<notin> set g"
proof -
  have fileflat: "CHR ''/'' \<notin> set (chunk_file (webpack_output d) chunk_hash content c)"
    if "c \<in> set (make_chunks es)" for c
    using that
  proof (cases rule: chunk_file_cases [where d = d and chunk_hash = chunk_hash and content = content])
    case (entry n ms)
    with flat hex_no_slash [OF hex [rule_format]] show ?thesis
      by (auto simp: list_all_iff)
  next
    case shared
    with hex_no_slash [OF hex [rule_format]] show ?thesis by auto
  qed
  from g show ?thesis
  proof (cases rule: emitted_key_cases)
    case (script c)
    with fileflat show ?thesis by blast
  next
    case (map c)
    with fileflat show ?thesis by auto
  qed
qed

lemma emitted_key_capture:
  assumes hex: "\<forall>x. chunk_hash x \<noteq> [] \<and> list_all is_hex_char (chunk_hash x)"
    and flat: "list_all (\<lambda>(n, _). CHR ''/'' \<notin> set n \<and> list_all (\<lambda>c. \<not> is_line_terminator c) n) es"
    and g: "g \<in> set (obj_keys (concat (map (chunk_assets (webpack_output d) chunk_hash content source_map)
                                   (make_chunks es))))"
    and m: "exec_hashed_js (path_basename g) = Some (h, b)"
  shows "\<exists>n ms. (n, ms) \<in> set es \<and> b = n @ ''.js''
           \<and> g = chunk_hash (serialize content (entry_chunk_modules es ms)) @ CHR ''-'' # n @ ''.js''"
proof -
  have fl: "list_all (\<lambda>(n, _). CHR ''/'' \<notin> set n) es"
    using flat by (auto simp: list_all_iff)
  have hx: "\<forall>x. list_all is_hex_char (chunk_hash x)" using hex by blast
  have "CHR ''/'' \<notin> set g" using emitted_keys_flat [OF hx fl g] .
  then have m': "exec_hashed_js g = Some (h, b)" using m by simp
  from g show ?thesis
  proof (cases rule: emitted_key_cases)
    case (map c)
    with m' show ?thesis by simp
  next
    case (script c)
    from script(1) show ?thesis
    proof (cases rule: chunk_file_cases [where d = d and chunk_hash = chunk_hash and content = content])
      case (entry n ms)
      let ?h = "chunk_hash (serialize content (entry_chunk_modules es ms))"
      have n: "list_all (\<lambda>c. \<not> is_line_terminator c) n"
        using flat entry(1) by (auto simp: list_all_iff)
      have "exec_hashed_js (?h @ CHR ''-'' # n @ ''.js'') = Some (?h, n @ ''.js'')"
        using hex n by (simp add: exec_hashed_js_iff hashed_js_captures_def is_line_terminator_def)
      with m' script entry show ?thesis by auto
    next
      case shared
      with m' script hex show ?thesis by (simp add: exec_hashed_js_chunk)
    qed
  qed
qed


lemma entry_script_emitted:
  assumes hex: "\<forall>x. chunk_hash x \<noteq> [] \<and> list_all is_hex_char (chunk_hash x)"
    and flat: "list_all (\<lambda>(n, _). CHR ''/'' \<notin> set n \<and> list_all (\<lambda>c. \<not> is_line_terminator c) n) es"
    and e: "(n, ms) \<in> set es"
  shows "(chunk_hash (serialize content (entry_chunk_modules es ms)) @ CHR ''-'' # n @ ''.js'',
          RawSource (serialize content (entry_chunk_modules es ms)))
           \<in> set (concat (map (chunk_assets (webpack_output d) chunk_hash content source_map)
                                (make_chunks es)))
    \<and> exec_hashed_js (path_basename (chunk_hash (serialize content (entry_chunk_modules es ms))
                                      @ CHR ''-'' # n @ ''.js''))
        = Some (chunk_hash (serialize content (entry_chunk_modules es ms)), n @ ''.js'')"
proof
  let ?body = "serialize content (entry_chunk_modules es ms)"
  let ?F = "chunk_hash ?body @ CHR ''-'' # n @ ''.js''"
  have "EntryChunk n (entry_chunk_modules es ms) \<in> set (make_chunks es)"
    using e by (force simp: make_chunks_def)
  moreover have "(?F, RawSource ?body) \<in> set (chunk_assets (webpack_output d) chunk_hash content source_map
                                               (EntryChunk n (entry_chunk_modules es ms)))"
    by (simp add: chunk_assets_def chunk_file_def Let_def)
  ultimately show "(?F, RawSource ?body) \<in> set (concat (map (chunk_assets (webpack_output d) chunk_hash
                                                   content source_map) (make_chunks es)))"
    by auto
  have "CHR ''/'' \<notin> set n" and nlt: "list_all (\<lambda>c. \<not> is_line_terminator c) n"
    using flat e by (auto simp: list_all_iff)
  with hex have "CHR ''/'' \<notin> set ?F" using hex_no_slash by (simp add: is_hex_char_def)
  then have bF: "path_basename ?F = ?F" by (rule path_basename_flat)
  show "exec_hashed_js (path_basename ?F) = Some (chunk_hash ?body, n @ ''.js'')"
    unfolding bF using hex nlt
    by (simp add: exec_hashed_js_iff hashed_js_captures_def is_line_terminator_def)
qed

lemma writer_flat_lookup:
  assumes w: "output_writer fails previous R = (dir, None)"
    and flat: "\<forall>k \<in> set (obj_keys R). CHR ''/'' \<notin> set k"
    and d: "distinct (obj_keys R)"
  shows "dir k = map_option source_text (map_of R k)"
proof -
  from w have dir: "dir = map_of (rev (map (\<lambda>(n, s). (path_basename n, source_text s)) R))"
    by (simp add: output_writer_def write_files_ok)
  have eq: "map (\<lambda>(n, s). (path_basename n, source_text s)) R = map (\<lambda>(n, s). (n, source_text s)) R"
    using flat by (auto intro!: map_cong)
  have dd: "distinct (map fst (map (\<lambda>(n, s). (n, source_text s)) R))"
    using d by (simp add: comp_def case_prod_unfold)
  have "dir = map_of (map (\<lambda>(n, s). (n, source_text s)) R)"
    unfolding dir eq by (rule map_of_rev_distinct [OF dd])
  then show ?thesis by (simp add: map_of_map)
qed

lemma hex_dash_inj:
  assumes h1: "list_all is_hex_char h1" and h2: "list_all is_hex_char h2"
    and eq: "h1 @ CHR ''-'' # r1 = h2 @ CHR ''-'' # r2"
  shows "h1 = h2 \<and> r1 = r2"
proof -
  have t: "takeWhile is_hex_char (h @ CHR ''-'' # r) = h" if "list_all is_hex_char h" for h r
    using that by (simp add: takeWhile_append2 list_all_iff)
  have "h1 = h2" using t [OF h1, of r1] t [OF h2, of r2] eq by simp
  with eq show ?thesis by simp
qed

lemma js_not_map: "p @ ''.js'' \<noteq> q @ ''.map''"
proof
  assume "p @ ''.js'' = q @ ''.map''"
  then have "last (p @ ''.js'') = last (q @ ''.map'')" by simp
  then show False by simp
qed

lemma distinct_script_map_names:
  assumes "distinct (map F cs)" and "\<forall>c \<in> set cs. \<exists>p. F c = p @ ''.js''"
  shows "distinct (concat (map (\<lambda>c. [F c, F c @ ''.map'']) cs))"
  using assms
proof (induction cs)
  case Nil
  then show ?case by simp
next
  case (Cons c cs)
  have nm: "F c \<noteq> F c' @ ''.map''" "F c @ ''.map'' \<noteq> F c'" if "c' \<in> set cs" for c'
    using Cons.prems(2) that js_not_map by (metis list.set_intros)+
  have "F c \<noteq> F c'" if "c' \<in> set cs" for c' using Cons.prems(1) that by auto
  with nm Cons show ?case by auto
qed

lemma keys_emitted:
  "obj_keys (concat (map (chunk_assets (webpack_output d) chunk_hash content source_map) cs))
     = concat (map (\<lambda>c. [chunk_file (webpack_output d) chunk_hash content c,
                         chunk_file (webpack_output d) chunk_hash content c @ ''.map'']) cs)"
  by (simp add: map_concat keys_chunk_assets comp_def)

lemma chunk_files_distinct:
  assumes hex: "\<forall>x. list_all is_hex_char (chunk_hash x)" and names: "distinct (map fst es)"
  shows "distinct (map (chunk_file (webpack_output d) chunk_hash content) (make_chunks es))"
proof -
  let ?F = "chunk_file (webpack_output d) chunk_hash content"
  let ?E = "map (\<lambda>(n, ms). EntryChunk n (entry_chunk_modules es ms)) es"
  have "inj_on (\<lambda>(n, ms). chunk_hash (serialize content (entry_chunk_modules es ms)) @ CHR ''-'' # n @ ''.js'')
          (set es)"
  proof (rule inj_onI, clarify)
    fix n ms n' ms' assume e: "(n, ms) \<in> set es" "(n', ms') \<in> set es"
      and "chunk_hash (serialize content (entry_chunk_modules es ms)) @ CHR ''-'' # n @ ''.js''
         = chunk_hash (serialize content (entry_chunk_modules es ms')) @ CHR ''-'' # n' @ ''.js''"
    then have "n = n'" using hex_dash_inj hex by blast
    with e names show "n = n' \<and> ms = ms'" by (metis eq_key_imp_eq_value)
  qed
  moreover have "distinct es" using names by (simp add: distinct_map)
  ultimately have dE: "distinct (map ?F ?E)"
    by (simp add: distinct_map chunk_file_def case_prod_unfold comp_def inj_on_def)
  have "CHR ''-'' \<in> set (?F c)" if "c \<in> set ?E" for c
    using that by (auto simp: chunk_file_def)
  moreover have "CHR ''-'' \<notin> set (?F (SharedChunk ''0'' (shared_modules es)))"
    using hex [rule_format, of "serialize content (shared_modules es)"]
    by (auto simp: chunk_file_def list_all_iff)
  ultimately have "?F (SharedChunk ''0'' (shared_modules es)) \<notin> set (map ?F ?E)" by force
  with dE show ?thesis by (simp add: make_chunks_def)
qed

lemma emitted_names_distinct:
  assumes hex: "\<forall>x. list_all is_hex_char (chunk_hash x)" and names: "distinct (map fst es)"
  shows "distinct (obj_keys (concat (map (chunk_assets (webpack_output d) chunk_hash content source_map)
                                       (make_chunks es))))"
proof -
  have "\<forall>c \<in> set (make_chunks es). \<exists>p. chunk_file (webpack_output d) chunk_hash content c = p @ ''.js''"
    by (auto simp: make_chunks_def chunk_file_def)
  with chunk_files_distinct [OF hex names] show ?thesis
    unfolding keys_emitted by (rule distinct_script_map_names)
qed

lemma build_Inl:
  assumes "build fails previous cfg chunk_hash content source_map es = Inl e"
  shows "emit_chunks cfg chunk_hash content source_map (make_chunks es) = Inl e \<or> (\<exists>f. e = WriteFailure f)"
proof (cases "emit_chunks cfg chunk_hash content source_map (make_chunks es)")
  case (Inl e')
  with assms show ?thesis by (simp add: build_def)
next
  case (Inr assets)
  with assms obtain d where w: "output_writer fails previous (redirect_emit assets) = (d, Some e)"
    by (auto simp: build_def split: prod.splits option.splits)
  from output_writer_partial [OF w] show ?thesis by auto
qed

lemma entry_keys_no_line_terminator:
  "list_all (\<lambda>e. list_all (\<lambda>c. \<not> is_line_terminator c) (entry_key e)) entryPoints"
  by (simp add: entries_eval is_line_terminator_def)

lemmas build_eval = build_def emit_chunks_def make_chunks_def shared_modules_def entries_reaching_def
  entry_chunk_modules_def chunk_assets_def chunk_file_def serialize_def redirect_emit_def
  for_in_keys_def is_array_index_def shim_eval output_writer_def Let_def install_fake_md5_assets_def

section \<open>Properties of the whole build\<close>

text \<open>A successful build writes, as flat files, exactly the emitted assets after the
  emit hook; the common first step of the properties of a successful build.\<close>

lemma build_Inr_dir:
  assumes b: "build fails previous (webpack_output dirname) chunk_hash content source_map es = Inr dir"
    and hx: "\<forall>x. list_all is_hex_char (chunk_hash x)"
    and fl: "list_all (\<lambda>(n, _). CHR ''/'' \<notin> set n) es"
  obtains assets where
    "assets = concat (map (chunk_assets (webpack_output dirname) chunk_hash content source_map)
                        (make_chunks es))"
    "distinct (obj_keys assets)"
    "\<forall>k \<in> set (obj_keys (redirect_emit assets)). CHR ''/'' \<notin> set k"
    "\<And>k. dir k = map_option source_text (map_of (redirect_emit assets) k)"
proof -
  obtain assets where em: "emit_chunks (webpack_output dirname) chunk_hash content source_map (make_chunks es)
        = Inr assets"
      and w: "output_writer fails previous (redirect_emit assets) = (dir, None)"
    using b by (auto simp: build_def split: sum.splits prod.splits option.splits)
  have A: "assets = concat (map (chunk_assets (webpack_output dirname) chunk_hash content source_map)
                        (make_chunks es))" and dA: "distinct (obj_keys assets)"
    using emit_chunks_Inr [OF em] by blast+
  have flatA: "\<forall>k \<in> set (obj_keys assets). CHR ''/'' \<notin> set k"
    using emitted_keys_flat [OF hx fl] A by blast
  have flatR: "\<forall>k \<in> set (obj_keys (redirect_emit assets)). CHR ''/'' \<notin> set k"
    by (rule redirect_emit_keys_flat [OF flatA])
  have "dir k = map_option source_text (map_of (redirect_emit assets) k)" for k
    using w flatR redirect_emit_distinct [OF dA] by (rule writer_flat_lookup)
  with A dA flatR that show ?thesis by blast
qed

lemma map_not_sidecar: "p @ ''.map'' \<noteq> q @ ''.md5''"
proof
  assume "p @ ''.map'' = q @ ''.md5''"
  then have "last (p @ ''.map'') = last (q @ ''.md5'')" by simp
  then show False by simp
qed

text \<open>The host contract for one build: whenever the build succeeds with a chunk hash
  that is a nonempty string of lowercase hex digits, distinct flat entry names without line
  terminators, the lookup of \<open><name>.js\<close> finds the hashed script of that entry's chunk,
  and the source map \<open>devtool: 'source-map'\<close> asks for sits beside it.\<close>

lemma build_serves_entries:
  assumes b: "build fails previous (webpack_output dirname) chunk_hash content source_map es = Inr dir"
    and hex: "\<forall>x. chunk_hash x \<noteq> [] \<and> list_all is_hex_char (chunk_hash x)"
    and names: "distinct (map fst es)"
    and flat: "list_all (\<lambda>(n, _). CHR ''/'' \<notin> set n \<and> list_all (\<lambda>c. \<not> is_line_terminator c) n) es"
    and e: "(n, ms) \<in> set es"
  shows "play_versioned_file dir (n @ ''.js'')
           = Some (chunk_hash (serialize content (entry_chunk_modules es ms)) @ CHR ''-'' # n @ ''.js'')
    \<and> dir (chunk_hash (serialize content (entry_chunk_modules es ms)) @ CHR ''-'' # n @ ''.js'')
           = Some (serialize content (entry_chunk_modules es ms))
    \<and> dir (chunk_hash (serialize content (entry_chunk_modules es ms)) @ CHR ''-'' # n @ ''.js.map'')
           = Some (source_map (serialize content (entry_chunk_modules es ms)))"
proof -
  let ?cfg = "webpack_output dirname"
  have hx: "\<forall>x. list_all is_hex_char (chunk_hash x)" and fl: "list_all (\<lambda>(n, _). CHR ''/'' \<notin> set n) es"
    using hex flat by (auto simp: list_all_iff)
  obtain assets where
    A: "assets = concat (map (chunk_assets ?cfg chunk_hash content source_map) (make_chunks es))"
    and dA: "distinct (obj_keys assets)"
    and dirk: "\<And>k. dir k = map_option source_text (map_of (redirect_emit assets) k)"
    using build_Inr_dir [OF b hx fl] by blast
  let ?body = "serialize content (entry_chunk_modules es ms)"
  let ?h = "chunk_hash ?body"
  let ?F = "?h @ CHR ''-'' # n @ ''.js''"
  have Fa: "(?F, RawSource ?body) \<in> set assets"
    and mF: "exec_hashed_js (path_basename ?F) = Some (?h, n @ ''.js'')"
    using entry_script_emitted [OF hex flat e, where d = dirname and source_map = source_map] A
    by simp_all
  then have Fk: "?F \<in> set (obj_keys assets)" by force
  have "EntryChunk n (entry_chunk_modules es ms) \<in> set (make_chunks es)"
    using e by (force simp: make_chunks_def)
  then have Ma: "(?F @ ''.map'', RawSource (source_map ?body)) \<in> set assets"
    unfolding A by (force simp: chunk_assets_def chunk_file_def Let_def)
  have uniq: "\<forall>g \<in> set (obj_keys assets). \<forall>h' b'.
      exec_hashed_js (path_basename g) = Some (h', b') \<longrightarrow> b' = n @ ''.js'' \<longrightarrow> g = ?F"
  proof (intro ballI allI impI)
    fix g h' b'
    assume g: "g \<in> set (obj_keys assets)" and m: "exec_hashed_js (path_basename g) = Some (h', b')"
      and bn: "b' = n @ ''.js''"
    from g have g': "g \<in> set (obj_keys (concat (map (chunk_assets ?cfg chunk_hash content source_map)
                                   (make_chunks es))))" by (simp only: A)
    from emitted_key_capture [OF hex flat g' m] obtain n' ms' where "(n', ms') \<in> set es"
      and "b' = n' @ ''.js''"
      and gn: "g = chunk_hash (serialize content (entry_chunk_modules es ms')) @ CHR ''-'' # n' @ ''.js''"
      by blast
    with bn have "n' = n" and "(n, ms') \<in> set es" by simp_all
    with names e have "ms' = ms" by (metis eq_key_imp_eq_value)
    with gn \<open>n' = n\<close> show "g = ?F" by simp
  qed
  have side: "map_of (redirect_emit assets) (n @ ''.js.md5'') = Some (RawSource ?h)"
    using sidecar_kvs_value [OF Fk mF uniq] by (simp add: redirect_emit_map_of)
  have "ends_with ?F ''.js''" by (simp add: ends_with_iff)
  then have "\<forall>g \<in> set (obj_keys assets). \<forall>h b.
             exec_hashed_js (path_basename g) = Some (h, b) \<longrightarrow> ?F \<noteq> b @ ''.md5''"
    using js_name_not_sidecar by blast
  moreover have "map_of assets ?F = Some (RawSource ?body)"
    using dA Fa by simp
  ultimately have fileR: "map_of (redirect_emit assets) ?F = Some (RawSource ?body)"
    by (simp add: redirect_emit_map_of sidecar_kvs_none map_add_def)
  have "\<forall>g \<in> set (obj_keys assets). \<forall>h b.
          exec_hashed_js (path_basename g) = Some (h, b) \<longrightarrow> ?F @ ''.map'' \<noteq> b @ ''.md5''"
    using map_not_sidecar by blast
  moreover have "map_of assets (?F @ ''.map'') = Some (RawSource (source_map ?body))"
    using dA Ma by simp
  ultimately have mapR: "map_of (redirect_emit assets) (?F @ ''.map'') = Some (RawSource (source_map ?body))"
    by (simp add: redirect_emit_map_of sidecar_kvs_none map_add_def)
  show ?thesis
    using fileR mapR by (simp add: play_versioned_file_def dirk side)
qed

text \<open>Claim C3 (which sidecars): the emit hook adds exactly one sidecar name
  \<open><name>.js.md5\<close> per entry and none for shared chunks or source maps.\<close>

theorem emitted_sidecar_keys:
  assumes em: "emit_chunks (webpack_output d) chunk_hash content source_map (make_chunks es) = Inr assets"
    and hex: "\<forall>x. chunk_hash x \<noteq> [] \<and> list_all is_hex_char (chunk_hash x)"
    and flat: "list_all (\<lambda>(n, _). CHR ''/'' \<notin> set n \<and> list_all (\<lambda>c. \<not> is_line_terminator c) n) es"
  shows "set (obj_keys (redirect_emit assets))
           = set (obj_keys assets) \<union> (\<lambda>n. n @ ''.js.md5'') ` fst ` set es"
proof -
  let ?kvs = "map (\<lambda>a. (fake_filename a, RawSource (fake_contents a))) (fake_md5_loop [] (obj_keys assets))"
  have A: "assets = concat (map (chunk_assets (webpack_output d) chunk_hash content source_map)
                              (make_chunks es))"
    using emit_chunks_Inr [OF em] by blast
  have "set (map fst ?kvs) = (\<lambda>n. n @ ''.js.md5'') ` fst ` set es"
  proof
    show "set (map fst ?kvs) \<subseteq> (\<lambda>n. n @ ''.js.md5'') ` fst ` set es"
    proof
      fix k assume "k \<in> set (map fst ?kvs)"
      then obtain v where "(k, v) \<in> set ?kvs" by force
      then obtain g h b where g: "g \<in> set (obj_keys assets)"
        and m: "exec_hashed_js (path_basename g) = Some (h, b)" and k: "k = b @ ''.md5''"
        by (auto simp only: sidecar_entries_iff)
      from g have g': "g \<in> set (obj_keys (concat (map (chunk_assets (webpack_output d) chunk_hash
                                   content source_map) (make_chunks es))))" by (simp only: A)
      from emitted_key_capture [OF hex flat g' m] obtain n ms
        where "(n, ms) \<in> set es" and "b = n @ ''.js''" by blast
      with k show "k \<in> (\<lambda>n. n @ ''.js.md5'') ` fst ` set es" by force
    qed
  next
    show "(\<lambda>n. n @ ''.js.md5'') ` fst ` set es \<subseteq> set (map fst ?kvs)"
    proof
      fix k assume "k \<in> (\<lambda>n. n @ ''.js.md5'') ` fst ` set es"
      then obtain n ms where e: "(n, ms) \<in> set es" and k: "k = n @ ''.js.md5''" by force
      let ?h = "chunk_hash (serialize content (entry_chunk_modules es ms))"
      from entry_script_emitted [OF hex flat e, where d = d and source_map = source_map] A
      have "?h @ CHR ''-'' # n @ ''.js'' \<in> set (obj_keys assets)"
        and "exec_hashed_js (path_basename (?h @ CHR ''-'' # n @ ''.js'')) = Some (?h, n @ ''.js'')"
        by force+
      then have "(k, RawSource ?h) \<in> set ?kvs"
        unfolding sidecar_entries_iff k by fastforce
      then show "k \<in> set (map fst ?kvs)" by force
    qed
  qed
  then show ?thesis by (simp only: redirect_emit_fold set_fold_update_keys)
qed

text \<open>Claim C4 (flat, exact output): after a successful build the output directory
  holds exactly the emitted assets and their sidecars, nothing from an earlier build,
  and no file name contains a path separator.\<close>

theorem build_output_flat:
  assumes b: "build fails previous (webpack_output dirname) chunk_hash content source_map es = Inr dir"
    and hx: "\<forall>x. list_all is_hex_char (chunk_hash x)"
    and fl: "list_all (\<lambda>(n, _). CHR ''/'' \<notin> set n) es"
  shows "dom dir = set (obj_keys (redirect_emit (concat (map (chunk_assets (webpack_output dirname)
                                      chunk_hash content source_map) (make_chunks es)))))
       \<and> (\<forall>f \<in> dom dir. CHR ''/'' \<notin> set f)"
proof -
  obtain assets where
    A: "assets = concat (map (chunk_assets (webpack_output dirname) chunk_hash content source_map)
                        (make_chunks es))"
    and flatR: "\<forall>k \<in> set (obj_keys (redirect_emit assets)). CHR ''/'' \<notin> set k"
    and dirk: "\<And>k. dir k = map_option source_text (map_of (redirect_emit assets) k)"
    using build_Inr_dir [OF b hx fl] by blast
  have "dom dir = set (obj_keys (redirect_emit assets))"
    by (auto simp: dom_def dirk map_of_eq_None_iff)
  with A flatR show ?thesis by simp
qed

text \<open>Claim C9 (no naming collision): with the templates of lines 110--112 and a hex
  content hash, the chunk and source-map names of distinct entries never collide, so
  emission never fails with \<open>ChunkNamingCollision\<close>.\<close>

theorem emit_chunks_no_collision:
  assumes hex: "\<forall>x. list_all is_hex_char (chunk_hash x)" and names: "distinct (map fst es)"
  shows "emit_chunks (webpack_output d) chunk_hash content source_map (make_chunks es)
           = Inr (concat (map (chunk_assets (webpack_output d) chunk_hash content source_map) (make_chunks es)))"
  using emitted_names_distinct [OF hex names]
  by (simp add: emit_chunks_def first_duplicate_None [symmetric])

text \<open>Claim C18 (determinism): the build depends only on the entry names and on the
  set of modules each entry reaches, not on the order the traversal found them.\<close>

theorem build_deterministic:
  assumes "map fst es = map fst es'" and "map (set \<circ> snd) es = map (set \<circ> snd) es'"
  shows "build fails previous (webpack_output dirname) chunk_hash content source_map es
       = build fails previous (webpack_output dirname) chunk_hash content source_map es'"
  by (simp add: build_def make_chunks_canonical [OF assms])

text \<open>Claim C1 (every page is served): when the whole configuration builds with a hex
  content hash, every configured entry point \<open>e\<close> has a module graph, every module of
  it was transformed by its loaders, and Play's lookup of \<open><entry_key e>.js\<close> in the
  written directory finds a hashed file holding that entry's chunk (its modules'
  transformed texts in canonical order), with the chunk's source map beside it as
  \<open><file>.map\<close> (\<open>devtool: 'source-map'\<close>, line 106).\<close>

theorem full_build_serves_pages:
  assumes b: "full_build fails previous dirname chunk_hash run raw source_map fs = Inr dir"
    and hex: "\<forall>x. chunk_hash x \<noteq> [] \<and> list_all is_hex_char (chunk_hash x)"
    and e: "e \<in> set entryPoints"
  shows "\<exists>es outs ms. compile_entries fs entryPointsMap = Inr es
           \<and> entry_graph fs (entry_module e) = Inr ms
           \<and> (\<forall>m \<in> set ms. transform_module run m (raw m) = Inr (module_output outs m))
           \<and> (\<exists>f. play_versioned_file dir (entry_key e @ ''.js'') = Some f
                \<and> dir f = Some (serialize (module_output outs) (entry_chunk_modules es ms))
                \<and> dir (f @ ''.map'')
                    = Some (source_map (serialize (module_output outs) (entry_chunk_modules es ms))))"
proof -
  obtain es where es: "compile_entries fs entryPointsMap = Inr es"
    using b by (auto simp: full_build_def split: sum.splits)
  obtain outs where outs: "transform_all run raw (remdups (concat (map snd es))) = Inr outs"
    using b es by (auto simp: full_build_def split: sum.splits)
  have bb: "build fails previous (webpack_output dirname) chunk_hash (module_output outs) source_map es = Inr dir"
    using b es outs by (simp add: full_build_def)
  have keys: "map fst es = map entry_key entryPoints"
    and graphs: "\<forall>(n, r) \<in> set entryPointsMap. \<exists>ms. (n, ms) \<in> set es \<and> entry_graph fs r = Inr ms"
    using compile_entries_Inr [OF es] by (simp_all add: entryPointsMap_map comp_def)
  have "(entry_key e, entry_module e) \<in> set entryPointsMap"
    using e by (simp add: entryPointsMap_map)
  with graphs obtain ms where ems: "(entry_key e, ms) \<in> set es" and g: "entry_graph fs (entry_module e) = Inr ms"
    by blast
  have names: "distinct (map fst es)" using keys entry_keys_distinct by simp
  have "\<forall>n \<in> set (map fst es). CHR ''/'' \<notin> set n \<and> list_all (\<lambda>c. \<not> is_line_terminator c) n"
    using entry_keys_no_line_terminator unfolding keys by (auto simp: list_all_iff)
  then have flat: "list_all (\<lambda>(n, _). CHR ''/'' \<notin> set n \<and> list_all (\<lambda>c. \<not> is_line_terminator c) n) es"
    by (auto simp: list_all_iff)
  have serve: "\<exists>f. play_versioned_file dir (entry_key e @ ''.js'') = Some f
                \<and> dir f = Some (serialize (module_output outs) (entry_chunk_modules es ms))
                \<and> dir (f @ ''.map'')
                    = Some (source_map (serialize (module_output outs) (entry_chunk_modules es ms)))"
    using build_serves_entries [OF bb hex names flat ems] by auto
  have "\<forall>m \<in> set ms. transform_module run m (raw m) = Inr (module_output outs m)"
    using ems transform_all_Inr [OF outs] by force
  with es g serve show ?thesis by blast
qed

text \<open>Claim C6 (error stages): a failed build of the configuration fails in the graph
  of an entry, in the transform of a module, or in the writer; with a hex hash the
  configured names never collide, so \<open>ChunkNamingCollision\<close> cannot occur.\<close>

theorem full_build_error:
  assumes b: "full_build fails previous dirname chunk_hash run raw source_map fs = Inl e"
    and hex: "\<forall>x. list_all is_hex_char (chunk_hash x)"
  shows "(\<exists>ep \<in> set entryPoints. entry_graph fs (entry_module ep) = Inl e)
       \<or> (\<exists>m. transform_module run m (raw m) = Inl e)
       \<or> (\<exists>f. e = WriteFailure f)"
proof (cases "compile_entries fs entryPointsMap")
  case (Inl e')
  with b have "compile_entries fs entryPointsMap = Inl e" by (simp add: full_build_def)
  from compile_entries_Inl [OF this] show ?thesis by (auto simp: entryPointsMap_map)
next
  case (Inr es)
  show ?thesis
  proof (cases "transform_all run raw (remdups (concat (map snd es)))")
    case (Inl e')
    with b Inr have "transform_all run raw (remdups (concat (map snd es))) = Inl e"
      by (simp add: full_build_def)
    from transform_all_Inl [OF this] show ?thesis by blast
  next
    case (Inr outs)
    with b \<open>compile_entries fs entryPointsMap = Inr es\<close>
    have bb: "build fails previous (webpack_output dirname) chunk_hash (module_output outs) source_map es = Inl e"
      by (simp add: full_build_def)
    have "map fst es = map entry_key entryPoints"
      using compile_entries_Inr [OF \<open>compile_entries fs entryPointsMap = Inr es\<close>]
      by (simp add: entryPointsMap_map comp_def)
    then have "distinct (map fst es)" using entry_keys_distinct by simp
    from emitted_names_distinct [OF hex this]
    have "emit_chunks (webpack_output dirname) chunk_hash (module_output outs) source_map (make_chunks es)
            \<noteq> Inl e"
      using emit_chunks_Inl by blast
    with build_Inl [OF bb] show ?thesis by blast
  qed
qed

subsection \<open>Witnesses\<close>

theorem emitted_sidecar_keys_witness:
  "set (obj_keys (redirect_emit [(''abcd1234-home.js'', RawSource ''a''), (''abcd1234-home.js.map'', RawSource ''m'')]))
     = {''abcd1234-home.js'', ''abcd1234-home.js.map'', ''home.js.md5''}"
proof -
  have em: "emit_chunks (webpack_output ''web'') (\<lambda>_. ''abcd1234'') (\<lambda>m. m) (\<lambda>_. ''m'')
              (make_chunks [(''home'', [''a''])])
            = Inr [(''abcd1234-home.js'', RawSource ''a''), (''abcd1234-home.js.map'', RawSource ''m'')]"
    by (simp add: build_eval)
  have hyps: "\<forall>x. (\<lambda>_. ''abcd1234'') x \<noteq> [] \<and> list_all is_hex_char ((\<lambda>_. ''abcd1234'') x)"
    "list_all (\<lambda>(n, _). CHR ''/'' \<notin> set n \<and> list_all (\<lambda>c. \<not> is_line_terminator c) n)
       [(''home'', [''a''])]"
    by (simp_all add: is_hex_char_def is_line_terminator_def)
  show ?thesis using emitted_sidecar_keys [OF em hyps] by auto
qed

theorem build_output_flat_witness:
  "\<exists>dir. build (\<lambda>_. False) Map.empty (webpack_output ''web'') (\<lambda>_. ''ab'') (\<lambda>m. m) (\<lambda>b. b)
            [(''home'', [''a''])] = Inr dir
     \<and> dom dir = {''ab-home.js'', ''ab-home.js.map'', ''home.js.md5''}"
proof -
  have "\<exists>D. build (\<lambda>_. False) Map.empty (webpack_output ''web'') (\<lambda>_. ''ab'') (\<lambda>m. m) (\<lambda>b. b)
            [(''home'', [''a''])] = Inr D"
    by (simp add: build_eval)
  then obtain dir where b: "build (\<lambda>_. False) Map.empty (webpack_output ''web'') (\<lambda>_. ''ab'')
            (\<lambda>m. m) (\<lambda>b. b) [(''home'', [''a''])] = Inr dir" by blast
  have "dom dir = set (obj_keys (redirect_emit (concat (map (chunk_assets (webpack_output ''web'')
                     (\<lambda>_. ''ab'') (\<lambda>m. m) (\<lambda>b. b)) (make_chunks [(''home'', [''a''])])))))"
    using build_output_flat [OF b] by (simp add: is_hex_char_def)
  then have "dom dir = {''ab-home.js'', ''ab-home.js.map'', ''home.js.md5''}"
    by (simp add: build_eval insert_commute)
  with b show ?thesis by blast
qed

theorem emit_chunks_no_collision_witness:
  "emit_chunks (webpack_output ''web'') (\<lambda>_. ''ab'') (\<lambda>m. m) (\<lambda>b. b)
      (make_chunks [(''home'', [''a'', ''c'']), (''admin'', [''b'', ''c''])])
   = Inr [(''ab-home.js'', RawSource ''a''), (''ab-home.js.map'', RawSource ''a''),
          (''ab-admin.js'', RawSource ''b''), (''ab-admin.js.map'', RawSource ''b''),
          (''ab.chunk.js'', RawSource ''c''), (''ab.chunk.js.map'', RawSource ''c'')]"
proof -
  have "emit_chunks (webpack_output ''web'') (\<lambda>_. ''ab'') (\<lambda>m. m) (\<lambda>b. b)
      (make_chunks [(''home'', [''a'', ''c'']), (''admin'', [''b'', ''c''])])
   = Inr (concat (map (chunk_assets (webpack_output ''web'') (\<lambda>_. ''ab'') (\<lambda>m. m) (\<lambda>b. b))
                   (make_chunks [(''home'', [''a'', ''c'']), (''admin'', [''b'', ''c''])])))"
    by (rule emit_chunks_no_collision) (simp_all add: is_hex_char_def)
  then show ?thesis by (simp add: build_eval)
qed

theorem build_deterministic_witness:
  "build (\<lambda>_. False) Map.empty (webpack_output ''web'') (\<lambda>_. ''ab'') (\<lambda>m. m) (\<lambda>b. b)
      [(''home'', [''a'', ''c'']), (''admin'', [''b'', ''c''])]
   = build (\<lambda>_. False) Map.empty (webpack_output ''web'') (\<lambda>_. ''ab'') (\<lambda>m. m) (\<lambda>b. b)
      [(''home'', [''c'', ''a'']), (''admin'', [''c'', ''b'', ''b''])]"
  by (rule build_deterministic) auto

theorem full_build_serves_pages_witness:
  "play_serve (projr (full_build (\<lambda>_. False) Map.empty ''web'' (\<lambda>_. ''ab'') demo_run (\<lambda>m. m) (\<lambda>b. b)
      demo_tree)) ''Welcome-show.js'' \<noteq> None"
proof -
  let ?b = "full_build (\<lambda>_. False) Map.empty ''web'' (\<lambda>_. ''ab'') demo_run (\<lambda>m. m) (\<lambda>b. b) demo_tree"
  have "\<not> isl ?b" by code_simp
  then have b: "?b = Inr (projr ?b)" by (rule not_isl_Inr)
  have "''Welcome/show'' \<in> set entryPoints" by (simp add: entryPoints_def)
  from full_build_serves_pages [OF b _ this]
  have "\<exists>body. play_serve (projr ?b) (entry_key ''Welcome/show'' @ ''.js'') = Some body"
    by (auto simp: is_hex_char_def play_serve_def)
  then show ?thesis by (auto simp: entry_key_def replace_char_def)
qed

theorem full_build_error_witness:
  "(\<exists>ep \<in> set entryPoints. entry_graph missing_tree (entry_module ep)
        = Inl (UnresolvedSpecifier ''jquery'' ''bundle/admin/Job/index.js''))
   \<or> (\<exists>m. transform_module demo_run m m = Inl (UnresolvedSpecifier ''jquery'' ''bundle/admin/Job/index.js''))
   \<or> (\<exists>f. UnresolvedSpecifier ''jquery'' ''bundle/admin/Job/index.js'' = WriteFailure f)"
proof -
  let ?b = "full_build (\<lambda>_. False) Map.empty ''web'' (\<lambda>_. ''ab'') demo_run (\<lambda>m. m) (\<lambda>b. b) missing_tree"
  have "isl ?b" and "projl ?b = UnresolvedSpecifier ''jquery'' ''bundle/admin/Job/index.js''"
    by code_simp+
  then have b: "?b = Inl (UnresolvedSpecifier ''jquery'' ''bundle/admin/Job/index.js'')"
    by (cases ?b) auto
  show ?thesis by (rule full_build_error [OF b]) (simp add: is_hex_char_def)
qed

end
